theory Spec2Isabelle
  imports
    Complex_Main
    "HOL-Library.AList"
    "HOL-Library.Char_ord"
    "HOL-Library.List_Lexorder"
    "HOL-Library.Multiset"
begin

section \<open>Python values, dictionaries and strings\<close>

text \<open>
  The search endpoint works on JSON documents held in Python dictionaries. A value is
  \<open>None\<close>, a number, a string or a list of values. Numbers are modelled by their numeric
  value (a rational: every finite float and every integer is one); the code only compares
  them and takes maxima, it never does arithmetic on them. A boolean is the number 0 or 1,
  as in Python. Nested objects and NaN are not modelled. A string is a list of characters
  with code points 0 to 255, compared lexicographically by code point.

  A dictionary is an association list in insertion order: \<open>AList.update\<close> overwrites the
  value of a key in place or appends a new key, \<open>AList.delete\<close> removes a key, exactly
  like item assignment and \<open>pop\<close> on a Python dictionary.
\<close>

datatype pyval = PyNone | PyNum rat | PyStr string | PyList "pyval list"

datatype error = TypeError | AttributeError | BackendError

type_synonym doc = "(string \<times> pyval) list"

definition dict_get :: "('k \<times> 'v) list \<Rightarrow> 'k \<Rightarrow> 'v \<Rightarrow> 'v" where
  "dict_get d k dflt = (case map_of d k of None \<Rightarrow> dflt | Some v \<Rightarrow> v)"

definition dict_set :: "('k \<times> 'v) list \<Rightarrow> 'k \<Rightarrow> 'v \<Rightarrow> ('k \<times> 'v) list" where
  "dict_set d k v = AList.update k v d"

definition dict_pop :: "('k \<times> 'v) list \<Rightarrow> 'k \<Rightarrow> ('k \<times> 'v) list" where
  "dict_pop d k = AList.delete k d"

text \<open>Truth value of a Python object, as tested by \<open>if not x\<close>.\<close>

fun truthy :: "pyval \<Rightarrow> bool" where
  "truthy PyNone = False"
| "truthy (PyNum r) = (r \<noteq> 0)"
| "truthy (PyStr s) = (s \<noteq> [])"
| "truthy (PyList xs) = (xs \<noteq> [])"

text \<open>Lists cannot be dictionary keys: hashing one raises \<open>TypeError\<close>.\<close>

fun hashable :: "pyval \<Rightarrow> bool" where
  "hashable (PyList xs) = False"
| "hashable v = True"

text \<open>
  Python's \<open>a < b\<close>: numbers compare with numbers and strings with strings; lists compare
  at the first position where they differ, or by length; anything else raises
  \<open>TypeError\<close> (the value \<open>None\<close> here).
\<close>

fun py_lt :: "pyval \<Rightarrow> pyval \<Rightarrow> bool option"
  and py_lt_list :: "pyval list \<Rightarrow> pyval list \<Rightarrow> bool option" where
  "py_lt (PyNum a) (PyNum b) = Some (a < b)"
| "py_lt (PyStr a) (PyStr b) = Some (a < b)"
| "py_lt (PyList a) (PyList b) = py_lt_list a b"
| "py_lt x y = None"
| "py_lt_list [] [] = Some False"
| "py_lt_list [] (y # ys) = Some True"
| "py_lt_list (x # xs) [] = Some False"
| "py_lt_list (x # xs) (y # ys) = (if x = y then py_lt_list xs ys else py_lt x y)"

text \<open>
  The two-argument \<open>max(a, b)\<close>: it keeps \<open>a\<close> unless \<open>b > a\<close>.
\<close>

definition py_max2 :: "pyval \<Rightarrow> pyval \<Rightarrow> error + pyval" where
  "py_max2 a b =
     (case py_lt a b of
        None \<Rightarrow> Inl TypeError
      | Some gt \<Rightarrow> Inr (if gt then b else a))"

text \<open>
  The maximum of a sequence as \<open>max\<close> computes it: the running maximum starts at the
  first item and is replaced by every later item that is greater. \<open>max(iterable,
  default=d)\<close> iterates a list or the characters of a string, returns the default
  for an empty sequence and raises \<open>TypeError\<close> on a value that is not iterable.
\<close>

fun py_max_fold :: "pyval \<Rightarrow> pyval list \<Rightarrow> error + pyval" where
  "py_max_fold m [] = Inr m"
| "py_max_fold m (s # ss) =
     (case py_max2 m s of Inl e \<Rightarrow> Inl e | Inr m' \<Rightarrow> py_max_fold m' ss)"

fun py_iter :: "pyval \<Rightarrow> error + pyval list" where
  "py_iter (PyList xs) = Inr xs"
| "py_iter (PyStr s) = Inr (map (\<lambda>c. PyStr [c]) s)"
| "py_iter v = Inl TypeError"

definition py_max_default :: "pyval \<Rightarrow> pyval \<Rightarrow> error + pyval" where
  "py_max_default v dflt =
     (case py_iter v of
        Inl e \<Rightarrow> Inl e
      | Inr [] \<Rightarrow> Inr dflt
      | Inr (x # xs) \<Rightarrow> py_max_fold x xs)"

text \<open>
  A slice \<open>xs[start:end]\<close> with integer bounds: a negative bound counts from the end,
  and both bounds are clipped to the list.
\<close>

definition slice_bound :: "int \<Rightarrow> int \<Rightarrow> int" where
  "slice_bound n i = (if i < 0 then max (i + n) 0 else min i n)"

definition py_slice :: "'a list \<Rightarrow> int \<Rightarrow> int \<Rightarrow> 'a list" where
  "py_slice xs start end =
     (let n = int (length xs); s = slice_bound n start; e = slice_bound n end
      in take (nat (e - s)) (drop (nat s) xs))"

subsection \<open>Characters and strings\<close>

definition code :: "char \<Rightarrow> nat" where
  "code c = of_char c"

text \<open>\<open>str.isspace\<close> on one character (code points below 256).\<close>

definition is_space :: "char \<Rightarrow> bool" where
  "is_space c = (let n = code c in
     (9 \<le> n \<and> n \<le> 13) \<or> (28 \<le> n \<and> n \<le> 32) \<or> n = 133 \<or> n = 160)"

definition is_digit :: "char \<Rightarrow> bool" where
  "is_digit c = (let n = code c in 48 \<le> n \<and> n \<le> 57)"

definition digit_val :: "char \<Rightarrow> int" where
  "digit_val c = int (code c) - 48"

text \<open>
  The regular-expression class \<open>\w\<close> on Python strings: letters, digits, other numeric
  characters and the underscore (code points below 256).
\<close>

definition is_word :: "char \<Rightarrow> bool" where
  "is_word c = (let n = code c in
     (48 \<le> n \<and> n \<le> 57) \<or> (65 \<le> n \<and> n \<le> 90) \<or> n = 95 \<or> (97 \<le> n \<and> n \<le> 122)
     \<or> n = 170 \<or> n = 178 \<or> n = 179 \<or> n = 181 \<or> (185 \<le> n \<and> n \<le> 186)
     \<or> (188 \<le> n \<and> n \<le> 190) \<or> (192 \<le> n \<and> n \<le> 214) \<or> (216 \<le> n \<and> n \<le> 246)
     \<or> (248 \<le> n \<and> n \<le> 255))"

text \<open>\<open>str.strip()\<close>, \<open>str.lower()\<close>, \<open>str.split(sep)\<close>, \<open>str.split()\<close>, \<open>sep.join\<close>,
  \<open>str.replace\<close> of a one-character pattern.\<close>

definition py_strip :: "string \<Rightarrow> string" where
  "py_strip s = rev (dropWhile is_space (rev (dropWhile is_space s)))"

definition lower_char :: "char \<Rightarrow> char" where
  "lower_char c = (let n = code c in
     if (65 \<le> n \<and> n \<le> 90) \<or> (192 \<le> n \<and> n \<le> 222 \<and> n \<noteq> 215)
     then char_of (n + 32) else c)"

definition py_lower :: "string \<Rightarrow> string" where
  "py_lower s = map lower_char s"

fun split_on :: "char \<Rightarrow> string \<Rightarrow> string list" where
  "split_on sep [] = [[]]"
| "split_on sep (c # cs) =
     (if c = sep then [] # split_on sep cs
      else (case split_on sep cs of
              [] \<Rightarrow> [[c]]
            | w # ws \<Rightarrow> (c # w) # ws))"

fun split_ws_acc :: "string \<Rightarrow> string \<Rightarrow> string list" where
  "split_ws_acc w [] = (if w = [] then [] else [rev w])"
| "split_ws_acc w (c # cs) =
     (if is_space c then (if w = [] then split_ws_acc [] cs else rev w # split_ws_acc [] cs)
      else split_ws_acc (c # w) cs)"

definition split_ws :: "string \<Rightarrow> string list" where
  "split_ws s = split_ws_acc [] s"

fun join :: "string \<Rightarrow> string list \<Rightarrow> string" where
  "join sep [] = []"
| "join sep [x] = x"
| "join sep (x # y # ys) = x @ sep @ join sep (y # ys)"

definition replace_char :: "char \<Rightarrow> string \<Rightarrow> string \<Rightarrow> string" where
  "replace_char c r s = concat (map (\<lambda>x. if x = c then r else [x]) s)"

text \<open>
  \<open>int(s)\<close> on a string, base 10: surrounding whitespace is skipped, then an optional
  sign, then decimal digits, where single underscores may stand between digits. Anything
  else raises \<open>ValueError\<close> (the value \<open>None\<close> here). The whitespace \<open>int\<close> skips is the
  C locale's plus the non-ASCII Unicode spaces. The interpreter's optional limit on the
  number of digits is not modelled.
\<close>

definition is_int_space :: "char \<Rightarrow> bool" where
  "is_int_space c = (let n = code c in (9 \<le> n \<and> n \<le> 13) \<or> n = 32 \<or> n = 133 \<or> n = 160)"

fun digits_acc :: "int \<Rightarrow> bool \<Rightarrow> string \<Rightarrow> int option" where
  "digits_acc a prev [] = (if prev then Some a else None)"
| "digits_acc a prev (c # cs) =
     (if is_digit c then digits_acc (10 * a + digit_val c) True cs
      else if c = CHR ''_'' \<and> prev then digits_acc a False cs
      else None)"

definition py_int :: "string \<Rightarrow> int option" where
  "py_int s =
     (case rev (dropWhile is_int_space (rev (dropWhile is_int_space s))) of
        [] \<Rightarrow> None
      | c # cs \<Rightarrow>
          if c = CHR ''-'' then map_option uminus (digits_acc 0 False cs)
          else if c = CHR ''+'' then digits_acc 0 False cs
          else digits_acc 0 False (c # cs))"

section \<open>Version consolidation\<close>

text \<open>
  \<open>parse_version\<close> of \<open>functions/search_resources.py\<close>: the version string is split at
  dots and every part converted with \<open>int\<close>; a part that is no integer (\<open>ValueError\<close>) or a
  value without \<open>split\<close> (\<open>AttributeError\<close>: anything but a string) gives \<open>(0, 0, 0)\<close>.
  Tuples of integers are lists of integers, compared lexicographically as Python does.
\<close>

fun parse_version :: "pyval \<Rightarrow> int list" where
  "parse_version (PyStr version_str) =
     (case those (map py_int (split_on CHR ''.'' version_str)) of
        Some parts \<Rightarrow> parts
      | None \<Rightarrow> [0, 0, 0])"
| "parse_version v = [0, 0, 0]"

text \<open>
  \<open>keep_latest_versions\<close>: the state of the loop is the pair of dictionaries
  \<open>latest_by_id\<close> and \<open>max_score_by_id\<close>; \<open>klv_step\<close> is one iteration of the loop body,
  \<open>klv_loop\<close> the loop, and the final pass writes the maximal score into every
  representative.
\<close>

type_synonym klv_state = "(pyval \<times> doc) list \<times> (pyval \<times> pyval) list"

definition doc_version :: "doc \<Rightarrow> int list" where
  "doc_version d = parse_version (dict_get d ''resource_version'' (PyStr ''0.0.0''))"

definition klv_step :: "klv_state \<Rightarrow> doc \<Rightarrow> error + klv_state" where
  "klv_step st d =
     (case st of (latest_by_id, max_score_by_id) \<Rightarrow>
      let resource_id = dict_get d ''id'' PyNone in
      if \<not> truthy resource_id then Inr st
      else
        let current_version = doc_version d;
            current_score = dict_get d ''score'' (PyNum 0)
        in
        if \<not> hashable resource_id then Inl TypeError
        else
          (case (case map_of max_score_by_id resource_id of
                   None \<Rightarrow> Inr current_score
                 | Some m \<Rightarrow> py_max2 m current_score) of
             Inl e \<Rightarrow> Inl e
           | Inr m' \<Rightarrow>
               Inr (case map_of latest_by_id resource_id of
                      None \<Rightarrow> dict_set latest_by_id resource_id d
                    | Some existing \<Rightarrow>
                        if current_version > doc_version existing
                        then dict_set latest_by_id resource_id d
                        else latest_by_id,
                    dict_set max_score_by_id resource_id m')))"

fun klv_loop :: "doc list \<Rightarrow> klv_state \<Rightarrow> error + klv_state" where
  "klv_loop [] st = Inr st"
| "klv_loop (d # ds) st =
     (case klv_step st d of Inl e \<Rightarrow> Inl e | Inr st' \<Rightarrow> klv_loop ds st')"

definition keep_latest_versions :: "doc list \<Rightarrow> error + doc list" where
  "keep_latest_versions results =
     (case klv_loop results ([], []) of
        Inl e \<Rightarrow> Inl e
      | Inr (latest_by_id, max_score_by_id) \<Rightarrow>
          Inr (map (\<lambda>(resource_id, d).
                      dict_set d ''score'' (dict_get max_score_by_id resource_id (PyNum 0)))
                   latest_by_id))"

definition doc_id :: "doc \<Rightarrow> pyval" where
  "doc_id d = dict_get d ''id'' PyNone"

text \<open>
  Notions used to state the properties of the consolidation. \<open>id_scores ds i\<close> lists the
  scores of the candidates with id \<open>i\<close>, in input order; the loop keeps their running
  maximum \<open>py_max_fold\<close>, started at the first of them. \<open>is_rep ds i r\<close> says that \<open>r\<close> is
  a candidate with id \<open>i\<close>, that every same-id candidate before it has a strictly
  smaller parsed version and that every same-id candidate after it has a parsed version
  that is at most its own. \<open>klv_inv\<close> is the invariant of the loop after the candidates
  \<open>ds\<close> have been processed.
\<close>

definition id_scores :: "doc list \<Rightarrow> pyval \<Rightarrow> pyval list" where
  "id_scores ds i =
     map (\<lambda>d. dict_get d ''score'' (PyNum 0)) (filter (\<lambda>d. doc_id d = i) ds)"

definition is_rep :: "doc list \<Rightarrow> pyval \<Rightarrow> doc \<Rightarrow> bool" where
  "is_rep ds i r =
     (doc_id r = i \<and>
      (\<exists>pre post. ds = pre @ r # post
         \<and> (\<forall>p\<in>set pre. doc_id p = i \<longrightarrow> doc_version p < doc_version r)
         \<and> (\<forall>q\<in>set post. doc_id q = i \<longrightarrow> doc_version q \<le> doc_version r)))"

definition klv_inv :: "doc list \<Rightarrow> klv_state \<Rightarrow> bool" where
  "klv_inv ds st =
     (case st of (L, M) \<Rightarrow>
        distinct (map fst L)
      \<and> fst ` set L = {doc_id d |d. d \<in> set ds \<and> truthy (doc_id d)}
      \<and> fst ` set M = fst ` set L
      \<and> (\<forall>i r. map_of L i = Some r \<longrightarrow> is_rep ds i r)
      \<and> (\<forall>i m. map_of M i = Some m \<longrightarrow>
            (\<exists>s ss. id_scores ds i = s # ss \<and> py_max_fold s ss = Inr m)))"

text \<open>
  The data model of the catalogue: the id of a document is absent, \<open>None\<close>, a number or a
  string (anything that can be a dictionary key), and its score is absent or a number.
\<close>

definition score_num :: "doc \<Rightarrow> rat" where
  "score_num d = (case dict_get d ''score'' (PyNum 0) of PyNum r \<Rightarrow> r | _ \<Rightarrow> 0)"

definition catalog_doc :: "doc \<Rightarrow> bool" where
  "catalog_doc d =
     ((case doc_id d of PyList xs \<Rightarrow> False | _ \<Rightarrow> True) \<and>
      (case dict_get d ''score'' (PyNum 0) of PyNum r \<Rightarrow> True | _ \<Rightarrow> False))"

text \<open>
  A version string parses when every dot-separated part of it is accepted by \<open>int\<close>.
\<close>

definition version_parses :: "string \<Rightarrow> bool" where
  "version_parses s = (those (map py_int (split_on CHR ''.'' s)) \<noteq> None)"

section \<open>Request sanitisation (shared/utils.py)\<close>

text \<open>
  The three special characters that cannot be written inside a string literal.
\<close>

definition backslash :: char where
  "backslash = CHR 0x5C"

definition dquote :: char where
  "dquote = CHR 0x22"

definition squote :: char where
  "squote = CHR 0x27"

text \<open>
  \<open>sanitize_id\<close>: the stripped value is returned when it consists of 1 to 100 characters
  out of word characters, dash and dot, and \<open>None\<close> otherwise. (After \<open>strip\<close> the
  value has no trailing newline, so the anchor \<open>$\<close> means the end of the string.)
\<close>

definition is_id_char :: "char \<Rightarrow> bool" where
  "is_id_char c = (is_word c \<or> c = CHR ''-'' \<or> c = CHR ''.'')"

definition sanitize_id :: "string \<Rightarrow> string option" where
  "sanitize_id v =
     (let v = py_strip v in
      if 1 \<le> length v \<and> length v \<le> 100 \<and> list_all is_id_char v then Some v else None)"

text \<open>
  \<open>sanitize_contains_str\<close>: strip, delete every character outside the allowed set, keep
  the first 200 characters.
\<close>

definition contains_str_punct :: string where
  "contains_str_punct = ''-.,:;!?@#%&()[]{}<>/=+*'' @ [backslash, squote, dquote]"

definition is_contains_char :: "char \<Rightarrow> bool" where
  "is_contains_char c = (is_word c \<or> is_space c \<or> c \<in> set contains_str_punct)"

definition sanitize_contains_str :: "string \<Rightarrow> string" where
  "sanitize_contains_str v = take 200 (filter is_contains_char (py_strip v))"

text \<open>
  \<open>sanitize_must_include\<close>: strip, keep only word characters, comma, semicolon, dash
  and dot, keep the first 500 characters.
\<close>

definition is_must_include_char :: "char \<Rightarrow> bool" where
  "is_must_include_char c = (is_word c \<or> c \<in> set '',;-.'')"

definition sanitize_must_include :: "string \<Rightarrow> string" where
  "sanitize_must_include v = take 500 (filter is_must_include_char (py_strip v))"

section \<open>Query translation\<close>

text \<open>
  \<open>escape_lucene_query\<close>: the special characters are replaced one after the other, the
  backslash first, each by a backslash followed by itself; the double quote last.
\<close>

definition special_chars :: string where
  "special_chars = backslash # ''+-&|!(){}[]^~*?:/''"

definition escape_lucene_query :: "string \<Rightarrow> string" where
  "escape_lucene_query query_str =
     replace_char dquote [backslash, dquote]
       (foldl (\<lambda>escaped c. replace_char c [backslash, c] escaped) query_str special_chars)"

text \<open>
  The clause the handler builds for one escaped term (lines 123 to 130), and the search
  text with its query type (lines 111 to 137).
\<close>

definition term_clause :: "string \<Rightarrow> string" where
  "term_clause escaped_term =
     ''(id:'' @ [dquote] @ escaped_term @ [dquote] @ ''^10 OR id:'' @ escaped_term @ ''*^10 OR ''
     @ ''description:'' @ [dquote] @ escaped_term @ [dquote] @ '' OR description:''
         @ escaped_term @ ''* OR ''
     @ ''category:'' @ [dquote] @ escaped_term @ [dquote] @ '' OR category:''
         @ escaped_term @ ''* OR ''
     @ ''architecture:'' @ [dquote] @ escaped_term @ [dquote] @ '' OR architecture:''
         @ escaped_term @ ''* OR ''
     @ ''tags:'' @ [dquote] @ escaped_term @ [dquote] @ '' OR tags:'' @ escaped_term @ ''* OR ''
     @ [dquote] @ escaped_term @ [dquote] @ '' OR '' @ escaped_term @ ''*)''"

definition build_search_text :: "string \<Rightarrow> string \<times> string" where
  "build_search_text contains_str =
     (if contains_str \<noteq> []
      then (join '' AND '' (map (\<lambda>term. term_clause (escape_lucene_query term))
                                (split_ws contains_str)),
            ''full'')
      else (''*'', ''simple''))"

text \<open>
  The query object is a dictionary whose values are strings (under \<open>query\<close> and \<open>sort\<close>)
  or lists of strings (the values of a filter clause). Python reads the length, the
  items and the truth value of both in the same way; a string is the sequence of its
  characters.
\<close>

datatype qval = QStr string | QList "string list"

type_synonym query_object = "(string \<times> qval) list"

fun q_truthy :: "qval \<Rightarrow> bool" where
  "q_truthy (QStr s) = (s \<noteq> [])"
| "q_truthy (QList vs) = (vs \<noteq> [])"

fun q_items :: "qval \<Rightarrow> string list" where
  "q_items (QStr s) = map (\<lambda>c. [c]) s"
| "q_items (QList vs) = vs"

text \<open>
  \<open>build_odata_filter\<close>. \<open>field_filter\<close> is the block the function repeats for each
  filterable field: nothing when \<open>query_object.get(field)\<close> is absent or falsy,
  otherwise one filter built from the values. The scalar fields put a single value
  without parentheses; the collection fields always parenthesise.
\<close>

definition eq_test :: "string \<Rightarrow> string \<Rightarrow> string" where
  "eq_test field v = field @ '' eq '' @ [squote] @ v @ [squote]"

definition any_test :: "string \<Rightarrow> string \<Rightarrow> string \<Rightarrow> string" where
  "any_test field var v =
     field @ ''/any('' @ var @ '': '' @ var @ '' eq '' @ [squote] @ v @ [squote] @ '')''"

definition scalar_filter :: "query_object \<Rightarrow> string \<Rightarrow> string list" where
  "scalar_filter q field =
     (case map_of q field of
        None \<Rightarrow> []
      | Some x \<Rightarrow>
          if \<not> q_truthy x then []
          else (case q_items x of
                  [v] \<Rightarrow> [eq_test field v]
                | values \<Rightarrow> [''('' @ join '' or '' (map (eq_test field) values) @ '')'']))"

definition collection_filter :: "query_object \<Rightarrow> string \<Rightarrow> string \<Rightarrow> string list" where
  "collection_filter q field var =
     (case map_of q field of
        None \<Rightarrow> []
      | Some x \<Rightarrow>
          if \<not> q_truthy x then []
          else [''('' @ join '' or '' (map (any_test field var) (q_items x)) @ '')''])"

definition build_odata_filter :: "query_object \<Rightarrow> string option" where
  "build_odata_filter q =
     (let filters = scalar_filter q ''category'' @ scalar_filter q ''architecture''
                    @ collection_filter q ''tags'' ''t''
                    @ collection_filter q ''gem5_versions'' ''v''
      in if filters \<noteq> [] then Some (join '' and '' filters) else None)"

section \<open>Ranking\<close>

text \<open>
  \<open>sorted(results, key=..., reverse=...)\<close>. The keys of all items are computed first (a
  key function may raise). The sort compares keys with \<open><\<close> only and is stable; with
  \<open>reverse=True\<close> the list is reversed, sorted and reversed again, which keeps items
  of equal key in their input order. Comparing two keys that are not comparable raises
  \<open>TypeError\<close>: the model reports it whenever two of the keys are not comparable (for
  keys that are numbers, strings or \<open>None\<close> this is exactly when Python raises).
  \<open>insort_lt\<close> inserts a keyed item before the first item whose key is not smaller.
\<close>

fun keys_of :: "('a \<Rightarrow> error + pyval) \<Rightarrow> 'a list \<Rightarrow> error + pyval list" where
  "keys_of key [] = Inr []"
| "keys_of key (x # xs) =
     (case key x of
        Inl e \<Rightarrow> Inl e
      | Inr k \<Rightarrow> (case keys_of key xs of Inl e \<Rightarrow> Inl e | Inr ks \<Rightarrow> Inr (k # ks)))"

fun comparable_keys :: "pyval list \<Rightarrow> bool" where
  "comparable_keys [] = True"
| "comparable_keys (k # ks) =
     (list_all (\<lambda>k'. py_lt k k' \<noteq> None \<and> py_lt k' k \<noteq> None) ks \<and> comparable_keys ks)"

fun insort_lt :: "pyval \<times> 'a \<Rightarrow> (pyval \<times> 'a) list \<Rightarrow> (pyval \<times> 'a) list" where
  "insort_lt x [] = [x]"
| "insort_lt x (y # ys) =
     (if py_lt (fst y) (fst x) = Some True then y # insort_lt x ys else x # y # ys)"

definition sort_lt :: "(pyval \<times> 'a) list \<Rightarrow> (pyval \<times> 'a) list" where
  "sort_lt kxs = foldr insort_lt kxs []"

definition py_sorted :: "('a \<Rightarrow> error + pyval) \<Rightarrow> bool \<Rightarrow> 'a list \<Rightarrow> error + 'a list" where
  "py_sorted key reverse xs =
     (case keys_of key xs of
        Inl e \<Rightarrow> Inl e
      | Inr ks \<Rightarrow>
          if \<not> comparable_keys ks then Inl TypeError
          else Inr (map snd (if reverse then rev (sort_lt (rev (zip ks xs)))
                             else sort_lt (zip ks xs))))"

text \<open>The four key functions of \<open>apply_sorting\<close>, and \<open>apply_sorting\<close> itself.\<close>

definition key_date :: "doc \<Rightarrow> error + pyval" where
  "key_date x = Inr (dict_get x ''date'' (PyStr ''''))"

definition key_id :: "doc \<Rightarrow> error + pyval" where
  "key_id x =
     (case dict_get x ''id'' (PyStr '''') of
        PyStr s \<Rightarrow> Inr (PyStr (py_lower s))
      | _ \<Rightarrow> Inl AttributeError)"

definition key_version :: "doc \<Rightarrow> error + pyval" where
  "key_version x = py_max_default (dict_get x ''gem5_versions'' (PyList [PyStr ''0''])) (PyStr ''0'')"

definition key_score :: "doc \<Rightarrow> error + pyval" where
  "key_score x = Inr (dict_get x ''score'' (PyNum 0))"

definition apply_sorting :: "doc list \<Rightarrow> qval \<Rightarrow> error + doc list" where
  "apply_sorting results sort_param =
     (if sort_param = QStr ''date'' then py_sorted key_date True results
      else if sort_param = QStr ''name'' \<or> sort_param = QStr ''id_asc''
        then py_sorted key_id False results
      else if sort_param = QStr ''id_desc'' then py_sorted key_id True results
      else if sort_param = QStr ''version'' then py_sorted key_version True results
      else py_sorted key_score True results)"

section \<open>The search endpoint\<close>

text \<open>
  The request is the dictionary of its query parameters. A response is a status code
  and a JSON body: an error message, or the documents of the page with the total
  count. The search client is a function from the arguments of \<open>search\<close> to the list of
  result documents, or to an error when the call or the iteration over its results
  raises. The handler returns its response together with the list of calls it made to
  the search client.
\<close>

record search_args =
  search_text :: string
  filter_expr :: "string option"
  include_total_count :: bool
  top_n :: nat
  query_type :: string

datatype body = ErrorBody string | DocumentsBody "doc list" nat

record http_response =
  status_code :: nat
  body :: body

type_synonym search_client = "search_args \<Rightarrow> error + doc list"

definition create_error_response :: "nat \<Rightarrow> string \<Rightarrow> http_response" where
  "create_error_response status message = \<lparr>status_code = status, body = ErrorBody message\<rparr>"

text \<open>
  Lines 58 to 73: both parameters are converted with \<open>int\<close> (a missing one is the
  integer default), then the bounds are checked.
\<close>

definition int_param :: "(string \<times> string) list \<Rightarrow> string \<Rightarrow> int \<Rightarrow> int option" where
  "int_param params name dflt =
     (case map_of params name of None \<Rightarrow> Some dflt | Some s \<Rightarrow> py_int s)"

definition parse_pagination :: "(string \<times> string) list \<Rightarrow> http_response + int \<times> int" where
  "parse_pagination params =
     (case int_param params ''page'' 1 of
        None \<Rightarrow> Inl (create_error_response 400 ''Invalid pagination parameters'')
      | Some page \<Rightarrow>
          (case int_param params ''page-size'' 10 of
             None \<Rightarrow> Inl (create_error_response 400 ''Invalid pagination parameters'')
           | Some page_size \<Rightarrow>
               if page < 1
               then Inl (create_error_response 400
                           ''Invalid pagination parameters: page must be >=1.'')
               else if page_size < 1 \<or> page_size > 100
               then Inl (create_error_response 400
                           ''Invalid pagination parameters: page-size must be between 1 and 100.'')
               else Inr (page, page_size)))"

text \<open>
  Lines 83 to 99: the loop over the groups of the must-include parameter; every group
  either ends the request with status 400 or stores its values under its field.
\<close>

fun parse_groups :: "string list \<Rightarrow> query_object \<Rightarrow> http_response + query_object" where
  "parse_groups [] q = Inr q"
| "parse_groups (grp # grps) q =
     (if grp = [] then parse_groups grps q
      else
        (case split_on CHR '','' grp of
           field # v # vs \<Rightarrow>
             (let values = map sanitize_id (v # vs) in
              if \<not> list_all (\<lambda>x. case x of None \<Rightarrow> False | Some s \<Rightarrow> s \<noteq> []) values
              then Inl (create_error_response 400 ''Invalid filter value format'')
              else parse_groups grps (dict_set q field (QList (map the values))))
         | _ \<Rightarrow> Inl (create_error_response 400 ''Invalid filter format'')))"

definition parse_must_include :: "string \<Rightarrow> query_object \<Rightarrow> http_response + query_object" where
  "parse_must_include must_include q =
     (if must_include \<noteq> [] then parse_groups (split_on CHR '';'' must_include) q else Inr q)"

text \<open>
  Lines 166 to 195: total count, slice, cleanup of every document of the page, response.
\<close>

definition clean_resource :: "doc \<Rightarrow> doc" where
  "clean_resource resource =
     dict_set
       (foldl dict_pop resource
          [''@search.score'', ''@search.highlights'', ''@search.reranker_score''])
       ''database'' (PyStr ''gem5-vision'')"

definition paginate_response :: "doc list \<Rightarrow> int \<Rightarrow> int \<Rightarrow> http_response" where
  "paginate_response sorted_resources page page_size =
     (let total_count = length sorted_resources;
          start_idx = (page - 1) * page_size;
          end_idx = start_idx + page_size;
          paginated_results = py_slice sorted_resources start_idx end_idx
      in \<lparr>status_code = 200,
          body = DocumentsBody (map clean_resource paginated_results) total_count\<rparr>)"

text \<open>
  Lines 48 to 55 and 77: the value stored under \<open>sort\<close> in the query object is the
  requested token when it is one of the five policies, and \<open>default\<close> when the
  parameter is absent, empty or anything else.
  Lines 139 to 164: the call of the search client, the score copied into every result,
  consolidation and sorting. Any exception gives status 500.
\<close>

definition sort_tokens :: "string list" where
  "sort_tokens = [''date'', ''name'', ''version'', ''id_asc'', ''id_desc'']"

definition sort_of_request :: "(string \<times> string) list \<Rightarrow> string" where
  "sort_of_request params =
     (case map_of params ''sort'' of
        None \<Rightarrow> ''default''
      | Some sort_param \<Rightarrow>
          if sort_param \<noteq> []
          then (if sort_param \<in> set sort_tokens then sort_param else ''default'')
          else ''default'')"

definition add_score :: "doc \<Rightarrow> doc" where
  "add_score result = dict_set result ''score'' (dict_get result ''@search.score'' (PyNum 0))"

definition ranked_results :: "doc list \<Rightarrow> query_object \<Rightarrow> error + doc list" where
  "ranked_results results q =
     (case keep_latest_versions (map add_score results) of
        Inl e \<Rightarrow> Inl e
      | Inr unique_resources \<Rightarrow>
          apply_sorting unique_resources (dict_get q ''sort'' (QStr ''default'')))"

definition search_resources ::
    "search_client \<Rightarrow> (string \<times> string) list \<Rightarrow> http_response \<times> search_args list" where
  "search_resources client params =
     (let contains_str = sanitize_contains_str (py_strip (dict_get params ''contains-str'' ''''));
          must_include = sanitize_must_include (dict_get params ''must-include'' '''')
      in
      case parse_pagination params of
        Inl response \<Rightarrow> (response, [])
      | Inr (page, page_size) \<Rightarrow>
          (case parse_must_include must_include
                  [(''query'', QStr contains_str), (''sort'', QStr (sort_of_request params))] of
             Inl response \<Rightarrow> (response, [])
           | Inr q \<Rightarrow>
               (let args = \<lparr>search_text = fst (build_search_text contains_str),
                            filter_expr = build_odata_filter q,
                            include_total_count = True,
                            top_n = 1000,
                            query_type = snd (build_search_text contains_str)\<rparr>
                in case client args of
                     Inl e \<Rightarrow> (create_error_response 500 ''Internal server error'', [args])
                   | Inr results \<Rightarrow>
                       (case ranked_results results q of
                          Inl e \<Rightarrow>
                            (create_error_response 500 ''Internal server error'', [args])
                        | Inr sorted_resources \<Rightarrow>
                            (paginate_response sorted_resources page page_size, [args])))))"

section \<open>Sort keys of the data model\<close>

text \<open>
  The keys of the ranking policies on documents of the catalogue's data model, where a
  date and an id are strings, \<open>gem5_versions\<close> is a list of strings and a score is a
  number (each possibly absent): the date with the empty string for a missing one, the
  case-folded id, the lexicographically greatest element of \<open>gem5_versions\<close> with \<open>0\<close>
  for a missing or empty list, and the score (\<open>score_num\<close> above).
  \<open>stable_asc f xs ys\<close> says that \<open>ys\<close> is \<open>xs\<close> rearranged in ascending order of the
  key \<open>f\<close> with documents of equal key in their order in \<open>xs\<close>; \<open>stable_desc\<close> is the
  same in descending order.
\<close>

definition is_str :: "pyval \<Rightarrow> bool" where
  "is_str v = (case v of PyStr s \<Rightarrow> True | _ \<Rightarrow> False)"

definition str_of :: "pyval \<Rightarrow> string" where
  "str_of v = (case v of PyStr s \<Rightarrow> s | _ \<Rightarrow> [])"

definition date_of :: "doc \<Rightarrow> string" where
  "date_of d = str_of (dict_get d ''date'' (PyStr ''''))"

definition folded_id :: "doc \<Rightarrow> string" where
  "folded_id d = py_lower (str_of (dict_get d ''id'' (PyStr '''')))"

definition versions_of :: "doc \<Rightarrow> string list" where
  "versions_of d =
     (case dict_get d ''gem5_versions'' (PyList [PyStr ''0'']) of
        PyList vs \<Rightarrow> map str_of vs
      | _ \<Rightarrow> [])"

definition max_version :: "doc \<Rightarrow> string" where
  "max_version d = (if versions_of d = [] then ''0'' else Max (set (versions_of d)))"

definition sortable_doc :: "doc \<Rightarrow> bool" where
  "sortable_doc d =
     (is_str (dict_get d ''date'' (PyStr ''''))
      \<and> is_str (dict_get d ''id'' (PyStr ''''))
      \<and> (case dict_get d ''gem5_versions'' (PyList [PyStr ''0'']) of
            PyList vs \<Rightarrow> list_all is_str vs
          | _ \<Rightarrow> False)
      \<and> (case dict_get d ''score'' (PyNum 0) of PyNum r \<Rightarrow> True | _ \<Rightarrow> False))"

definition stable_asc :: "('a \<Rightarrow> 'k::linorder) \<Rightarrow> 'a list \<Rightarrow> 'a list \<Rightarrow> bool" where
  "stable_asc f xs ys =
     (mset ys = mset xs \<and> sorted (map f ys)
      \<and> (\<forall>k. filter (\<lambda>y. f y = k) ys = filter (\<lambda>y. f y = k) xs))"

definition stable_desc :: "('a \<Rightarrow> 'k::linorder) \<Rightarrow> 'a list \<Rightarrow> 'a list \<Rightarrow> bool" where
  "stable_desc f xs ys =
     (mset ys = mset xs \<and> sorted (rev (map f ys))
      \<and> (\<forall>k. filter (\<lambda>y. f y = k) ys = filter (\<lambda>y. f y = k) xs))"

section \<open>Notions used to state the properties of the endpoint\<close>

text \<open>
  The structure of a term clause. \<open>field_matches\<close> is the pair of disjuncts for one
  field, an exact-phrase match and a prefix match, with the boost suffix of the field.
  \<open>fielded_clause\<close> is the clause that spans exactly the five fields, as the
  specification describes it; \<open>unfielded_matches\<close> are the two disjuncts without a field
  name, which the search service matches against every searchable field.
\<close>

definition searched_fields :: "(string \<times> string) list" where
  "searched_fields =
     [(''id'', ''^10''), (''description'', ''''), (''category'', ''''),
      (''architecture'', ''''), (''tags'', '''')]"

definition field_matches :: "string \<Rightarrow> string \<times> string \<Rightarrow> string list" where
  "field_matches t fb =
     [fst fb @ '':'' @ [dquote] @ t @ [dquote] @ snd fb,
      fst fb @ '':'' @ t @ ''*'' @ snd fb]"

definition unfielded_matches :: "string \<Rightarrow> string list" where
  "unfielded_matches t = [[dquote] @ t @ [dquote], t @ ''*'']"

definition fielded_clause :: "string \<Rightarrow> string" where
  "fielded_clause t =
     ''('' @ join '' OR '' (concat (map (field_matches t) searched_fields)) @ '')''"










section \<open>Example documents\<close>

text \<open>
  The documents of the specification's scenarios: resource \<open>R1\<close> stored in versions 1.0.0
  (score 5) and 2.0.0 (score 2), a second copy of version 2.0.0 under another category,
  and a resource \<open>R2\<close> whose first stored version string is unparseable and whose second
  is the well-formed \<open>0.0\<close>.
\<close>

definition r1_v1 :: doc where
  "r1_v1 = [(''id'', PyStr ''R1''), (''resource_version'', PyStr ''1.0.0''),
            (''score'', PyNum 5)]"

definition r1_v2 :: doc where
  "r1_v2 = [(''id'', PyStr ''R1''), (''resource_version'', PyStr ''2.0.0''),
            (''score'', PyNum 2)]"

definition r1_v2_dup :: doc where
  "r1_v2_dup = [(''id'', PyStr ''R1''), (''resource_version'', PyStr ''2.0.0''),
                (''category'', PyStr ''binary''), (''score'', PyNum 3)]"

definition r1_out :: doc where
  "r1_out = [(''id'', PyStr ''R1''), (''resource_version'', PyStr ''2.0.0''),
             (''score'', PyNum 5)]"

definition r2_bad :: doc where
  "r2_bad = [(''id'', PyStr ''R2''), (''resource_version'', PyStr ''bad'')]"

definition r2_short :: doc where
  "r2_short = [(''id'', PyStr ''R2''), (''resource_version'', PyStr ''0.0'')]"

definition r2_zero :: doc where
  "r2_zero = [(''id'', PyStr ''R2''), (''resource_version'', PyStr ''0.0.0'')]"

definition r2_one :: doc where
  "r2_one = [(''id'', PyStr ''R2''), (''resource_version'', PyStr ''0.1'')]"

text \<open>Three documents to be ranked: ids \<open>b\<close>, \<open>A\<close> and \<open>a\<close>.\<close>

definition s_b :: doc where
  "s_b = [(''id'', PyStr ''b''), (''date'', PyStr ''2024-05-01''),
          (''gem5_versions'', PyList [PyStr ''23.0'', PyStr ''24.1'']), (''score'', PyNum 1)]"

definition s_A :: doc where
  "s_A = [(''id'', PyStr ''A''), (''score'', PyNum 3)]"

definition s_a :: doc where
  "s_a = [(''id'', PyStr ''a''), (''date'', PyStr ''2025-01-01''), (''score'', PyNum 3)]"

text \<open>
  A search client that answers every query with these three documents, and the query
  it is asked when the request has no search text and no filter.
\<close>

definition three_hits :: search_client where
  "three_hits args = Inr [s_b, s_A, s_a]"

definition match_all_args :: search_args where
  "match_all_args = \<lparr>search_text = ''*'', filter_expr = None, include_total_count = True,
                      top_n = 1000, query_type = ''simple''\<rparr>"

text \<open>
  A result as the search service returns it, with its internal fields, the client that
  returns it, and the document the endpoint makes of it.
\<close>

definition raw_hit :: doc where
  "raw_hit = [(''id'', PyStr ''x86-ubuntu''), (''@search.score'', PyNum 2),
              (''@search.highlights'', PyNone), (''category'', PyStr ''disk-image''),
              (''@search.reranker_score'', PyNone)]"

definition one_hit :: search_client where
  "one_hit args = Inr [raw_hit]"

definition clean_hit :: doc where
  "clean_hit = [(''id'', PyStr ''x86-ubuntu''), (''category'', PyStr ''disk-image''),
                (''score'', PyNum 2), (''database'', PyStr ''gem5-vision'')]"



section \<open>Properties of the consolidation\<close>

lemma klv_step_falsy:
  "\<not> truthy (dict_get d ''id'' PyNone) \<Longrightarrow> klv_step st d = Inr st"
  by (simp add: klv_step_def split: prod.splits)

lemma klv_loop_filter:
  "klv_loop (filter (\<lambda>d. truthy (doc_id d)) ds) st = klv_loop ds st"
  by (induction ds arbitrary: st)
     (simp_all add: klv_step_falsy doc_id_def split: sum.splits)

text \<open>
  C9: documents whose id is falsy (absent, \<open>None\<close>, the empty string, zero, an empty list)
  are skipped by the loop before anything is recorded: the consolidated output is the
  one obtained from the input with these documents removed, so they contribute neither
  a representative nor a score. In particular a single document whose id is the empty
  string consolidates to the empty list, without error.
\<close>

theorem falsy_id_dropped:
  "keep_latest_versions ds = keep_latest_versions (filter (\<lambda>d. truthy (doc_id d)) ds)
   \<and> keep_latest_versions [(''id'', PyStr '''') # d] = Inr []
   \<and> keep_latest_versions [[(''resource_version'', PyStr ''1.0.0'')]] = Inr []"
  by (simp add: keep_latest_versions_def klv_loop_filter klv_step_def dict_get_def)

subsection \<open>The loop invariant\<close>

lemma klv_loop_snoc:
  "klv_loop (ds @ [d]) st =
     (case klv_loop ds st of Inl e \<Rightarrow> Inl e | Inr st' \<Rightarrow> klv_step st' d)"
  by (induction ds arbitrary: st) (simp_all split: sum.splits)

lemma py_max_fold_snoc:
  "py_max_fold m (ss @ [s]) =
     (case py_max_fold m ss of Inl e \<Rightarrow> Inl e | Inr m' \<Rightarrow> py_max2 m' s)"
  by (induction ss arbitrary: m) (simp_all split: sum.splits)

lemma is_rep_snoc_other:
  "is_rep ds i r \<Longrightarrow> doc_id d \<noteq> i \<Longrightarrow> is_rep (ds @ [d]) i r"
  unfolding is_rep_def
  apply (elim conjE exE)
  subgoal for pre post
    apply (intro conjI, assumption)
    apply (rule exI[of _ pre], rule exI[of _ "post @ [d]"])
    apply auto
    done
  done

lemma is_rep_snoc_keep:
  "is_rep ds i r \<Longrightarrow> \<not> doc_version d > doc_version r \<Longrightarrow> is_rep (ds @ [d]) i r"
  unfolding is_rep_def
  apply (elim conjE exE)
  subgoal for pre post
    apply (intro conjI, assumption)
    apply (rule exI[of _ pre], rule exI[of _ "post @ [d]"])
    apply auto
    done
  done

lemma is_rep_bound:
  "is_rep ds i r \<Longrightarrow> d \<in> set ds \<Longrightarrow> doc_id d = i \<Longrightarrow> doc_version d \<le> doc_version r"
  unfolding is_rep_def by (auto simp: less_imp_le)

lemma is_rep_snoc_new:
  "\<forall>p\<in>set ds. doc_id p = doc_id d \<longrightarrow> doc_version p < doc_version d \<Longrightarrow>
   is_rep (ds @ [d]) (doc_id d) d"
  unfolding is_rep_def
  apply (intro conjI, simp)
  apply (rule exI[of _ ds], rule exI[of _ "[]"])
  apply auto
  done

lemma id_scores_snoc:
  "id_scores (ds @ [d]) i =
     (if doc_id d = i then id_scores ds i @ [dict_get d ''score'' (PyNum 0)] else id_scores ds i)"
  by (simp add: id_scores_def)

lemma id_scores_Nil_iff: "id_scores ds i = [] \<longleftrightarrow> (\<forall>d\<in>set ds. doc_id d \<noteq> i)"
  by (auto simp: id_scores_def filter_empty_conv)

lemma map_of_mem_fst: "map_of L i = Some r \<Longrightarrow> i \<in> fst ` set L"
  by (metis domI dom_map_of_conv_image_fst)

lemma map_of_None_fst: "map_of L i = None \<longleftrightarrow> i \<notin> fst ` set L"
  by (simp add: map_of_eq_None_iff)

lemma klv_step_inv_falsy:
  assumes inv: "klv_inv ds (L, M)" and f: "\<not> truthy (doc_id d)"
  shows "klv_inv (ds @ [d]) (L, M)"
proof -
  have keys: "\<And>i. i \<in> fst ` set L \<Longrightarrow> doc_id d \<noteq> i"
    using inv f by (auto simp: klv_inv_def)
  have keysM: "fst ` set M = fst ` set L" using inv by (simp add: klv_inv_def)
  have 1: "fst ` set L = {doc_id x |x. x \<in> set (ds @ [d]) \<and> truthy (doc_id x)}"
    using inv f by (auto simp: klv_inv_def)
  have rL: "\<And>i r. map_of L i = Some r \<Longrightarrow> is_rep ds i r"
    using inv by (simp add: klv_inv_def)
  have 2: "\<forall>i r. map_of L i = Some r \<longrightarrow> is_rep (ds @ [d]) i r"
  proof (intro allI impI)
    fix i r assume a: "map_of L i = Some r"
    then have "i \<in> fst ` set L" by (rule map_of_mem_fst)
    then have "doc_id d \<noteq> i" by (rule keys)
    then show "is_rep (ds @ [d]) i r" using rL[OF a] by (rule is_rep_snoc_other[rotated])
  qed
  have 3: "\<forall>i m. map_of M i = Some m \<longrightarrow>
            (\<exists>s ss. id_scores (ds @ [d]) i = s # ss \<and> py_max_fold s ss = Inr m)"
  proof (intro allI impI)
    fix i m assume a: "map_of M i = Some m"
    then have "i \<in> fst ` set M" by (rule map_of_mem_fst)
    then have "i \<in> fst ` set L" using keysM by simp
    then have "doc_id d \<noteq> i" by (rule keys)
    then show "\<exists>s ss. id_scores (ds @ [d]) i = s # ss \<and> py_max_fold s ss = Inr m"
      using inv a by (simp add: klv_inv_def id_scores_snoc)
  qed
  show ?thesis using inv 1 2 3 by (simp add: klv_inv_def)
qed

lemma klv_step_inv_latest:
  assumes inv: "klv_inv ds (L, M)" and t: "truthy (doc_id d)"
  defines "L' \<equiv> (case map_of L (doc_id d) of
                      None \<Rightarrow> dict_set L (doc_id d) d
                    | Some existing \<Rightarrow>
                        if doc_version d > doc_version existing
                        then dict_set L (doc_id d) d
                        else L)"
  shows "distinct (map fst L') \<and>
         fst ` set L' = {doc_id x |x. x \<in> set (ds @ [d]) \<and> truthy (doc_id x)} \<and>
         (\<forall>i r. map_of L' i = Some r \<longrightarrow> is_rep (ds @ [d]) i r)"
proof -
  have dL: "distinct (map fst L)" using inv by (simp add: klv_inv_def)
  have kL: "fst ` set L = {doc_id x |x. x \<in> set ds \<and> truthy (doc_id x)}"
    using inv by (simp add: klv_inv_def)
  have rL: "\<And>i r. map_of L i = Some r \<Longrightarrow> is_rep ds i r"
    using inv by (simp add: klv_inv_def)
  show ?thesis
  proof (cases "map_of L (doc_id d)")
    case None
    then have L': "L' = AList.update (doc_id d) d L" by (simp add: L'_def dict_set_def)
    have nomem: "\<forall>p\<in>set ds. doc_id p \<noteq> doc_id d"
      using None kL t by (auto simp: map_of_None_fst)
    have "is_rep (ds @ [d]) (doc_id d) d"
      by (rule is_rep_snoc_new) (use nomem in auto)
    then have 3: "\<forall>i r. map_of L' i = Some r \<longrightarrow> is_rep (ds @ [d]) i r"
      using rL by (auto simp: L' update_conv' intro: is_rep_snoc_other)
    have 2: "fst ` set L' = {doc_id x |x. x \<in> set (ds @ [d]) \<and> truthy (doc_id x)}"
      using kL t by (auto simp: L' dom_update)
    show ?thesis using dL 2 3 by (simp add: L' distinct_update)
  next
    case (Some e)
    have mem: "doc_id d \<in> fst ` set L" using Some by (rule map_of_mem_fst)
    have re: "is_rep ds (doc_id d) e" using Some by (rule rL)
    show ?thesis
    proof (cases "doc_version d > doc_version e")
      case True
      then have L': "L' = AList.update (doc_id d) d L" using Some by (simp add: L'_def dict_set_def)
      have "\<forall>p\<in>set ds. doc_id p = doc_id d \<longrightarrow> doc_version p < doc_version d"
        using is_rep_bound[OF re] True by fastforce
      then have "is_rep (ds @ [d]) (doc_id d) d" by (rule is_rep_snoc_new)
      then have 3: "\<forall>i r. map_of L' i = Some r \<longrightarrow> is_rep (ds @ [d]) i r"
        using rL by (auto simp: L' update_conv' intro: is_rep_snoc_other)
      have 2: "fst ` set L' = {doc_id x |x. x \<in> set (ds @ [d]) \<and> truthy (doc_id x)}"
        using kL t by (auto simp: L' dom_update)
      show ?thesis using dL 2 3 by (simp add: L' distinct_update)
    next
      case False
      then have L': "L' = L" using Some by (simp add: L'_def)
      have 3: "\<forall>i r. map_of L' i = Some r \<longrightarrow> is_rep (ds @ [d]) i r"
      proof (intro allI impI)
        fix i r assume a: "map_of L' i = Some r"
        show "is_rep (ds @ [d]) i r"
        proof (cases "i = doc_id d")
          case True
          then have "r = e" using a Some L' by simp
          then show ?thesis using re False True by (auto intro: is_rep_snoc_keep)
        next
          case False
          then show ?thesis using a L' rL by (auto intro: is_rep_snoc_other)
        qed
      qed
      have 2: "fst ` set L' = {doc_id x |x. x \<in> set (ds @ [d]) \<and> truthy (doc_id x)}"
        using kL t mem by (auto simp: L')
      show ?thesis using dL 2 3 by (simp add: L')
    qed
  qed
qed

lemma klv_step_inv_max:
  assumes inv: "klv_inv ds (L, M)" and t: "truthy (doc_id d)"
    and m': "(case map_of M (doc_id d) of
                None \<Rightarrow> Inr (dict_get d ''score'' (PyNum 0))
              | Some m \<Rightarrow> py_max2 m (dict_get d ''score'' (PyNum 0))) = Inr m'"
  shows "\<forall>i m. map_of (dict_set M (doc_id d) m') i = Some m \<longrightarrow>
            (\<exists>s ss. id_scores (ds @ [d]) i = s # ss \<and> py_max_fold s ss = Inr m)"
proof (intro allI impI)
  fix i m assume a: "map_of (dict_set M (doc_id d) m') i = Some m"
  have kM: "fst ` set M = {doc_id x |x. x \<in> set ds \<and> truthy (doc_id x)}"
    using inv by (simp add: klv_inv_def)
  have rM: "\<And>i m. map_of M i = Some m \<Longrightarrow>
              \<exists>s ss. id_scores ds i = s # ss \<and> py_max_fold s ss = Inr m"
    using inv by (simp add: klv_inv_def)
  show "\<exists>s ss. id_scores (ds @ [d]) i = s # ss \<and> py_max_fold s ss = Inr m"
  proof (cases "i = doc_id d")
    case False
    then have "map_of M i = Some m" using a by (simp add: dict_set_def update_conv')
    then show ?thesis using rM False by (simp add: id_scores_snoc)
  next
    case True
    then have mm: "m = m'" using a by (simp add: dict_set_def update_conv')
    show ?thesis
    proof (cases "map_of M (doc_id d)")
      case None
      then have "doc_id d \<notin> fst ` set M" by (simp add: map_of_None_fst)
      then have "\<forall>x\<in>set ds. doc_id x \<noteq> doc_id d" using kM t by auto
      then have "id_scores ds (doc_id d) = []" by (simp add: id_scores_Nil_iff)
      then show ?thesis using None m' mm True by (simp add: id_scores_snoc)
    next
      case (Some m0)
      then obtain s ss where s: "id_scores ds (doc_id d) = s # ss" "py_max_fold s ss = Inr m0"
        using rM by blast
      have "py_max_fold s (ss @ [dict_get d ''score'' (PyNum 0)]) = Inr m'"
        using s Some m' by (simp add: py_max_fold_snoc)
      then show ?thesis using s mm True by (simp add: id_scores_snoc)
    qed
  qed
qed

lemma klv_step_truthy:
  "truthy (doc_id d) \<Longrightarrow>
   klv_step (L, M) d =
     (if \<not> hashable (doc_id d) then Inl TypeError
      else case (case map_of M (doc_id d) of
                None \<Rightarrow> Inr (dict_get d ''score'' (PyNum 0))
              | Some m \<Rightarrow> py_max2 m (dict_get d ''score'' (PyNum 0))) of
             Inl e \<Rightarrow> Inl e
           | Inr m' \<Rightarrow>
               Inr (case map_of L (doc_id d) of
                      None \<Rightarrow> dict_set L (doc_id d) d
                    | Some existing \<Rightarrow>
                        if doc_version d > doc_version existing
                        then dict_set L (doc_id d) d
                        else L,
                    dict_set M (doc_id d) m'))"
  unfolding klv_step_def doc_id_def Let_def by simp

lemma klv_step_inv:
  assumes inv: "klv_inv ds st" and step: "klv_step st d = Inr st'"
  shows "klv_inv (ds @ [d]) st'"
proof -
  obtain L M where st: "st = (L, M)" by (cases st)
  show ?thesis
  proof (cases "truthy (doc_id d)")
    case False
    then have "st' = st" using step by (simp add: klv_step_falsy doc_id_def)
    then show ?thesis using inv False st by (simp add: klv_step_inv_falsy)
  next
    case True
    define L' where "L' = (case map_of L (doc_id d) of
                      None \<Rightarrow> dict_set L (doc_id d) d
                    | Some existing \<Rightarrow>
                        if doc_version d > doc_version existing
                        then dict_set L (doc_id d) d
                        else L)"
    from step True st obtain m' where
      m': "(case map_of M (doc_id d) of
                None \<Rightarrow> Inr (dict_get d ''score'' (PyNum 0))
              | Some m \<Rightarrow> py_max2 m (dict_get d ''score'' (PyNum 0))) = Inr m'"
      and st': "st' = (L', dict_set M (doc_id d) m')"
      by (auto simp: klv_step_truthy L'_def split: if_splits sum.splits)
    have A: "distinct (map fst L') \<and>
         fst ` set L' = {doc_id x |x. x \<in> set (ds @ [d]) \<and> truthy (doc_id x)} \<and>
         (\<forall>i r. map_of L' i = Some r \<longrightarrow> is_rep (ds @ [d]) i r)"
      unfolding L'_def using inv[unfolded st] True by (rule klv_step_inv_latest)
    have B: "\<forall>i m. map_of (dict_set M (doc_id d) m') i = Some m \<longrightarrow>
            (\<exists>s ss. id_scores (ds @ [d]) i = s # ss \<and> py_max_fold s ss = Inr m)"
      using inv[unfolded st] True m' by (rule klv_step_inv_max)
    have kM: "fst ` set M = {doc_id x |x. x \<in> set ds \<and> truthy (doc_id x)}"
      using inv st by (simp add: klv_inv_def)
    have C: "fst ` set (dict_set M (doc_id d) m') = fst ` set L'"
      using A kM True by (auto simp: dict_set_def dom_update)
    show ?thesis using A B C by (simp add: st' klv_inv_def)
  qed
qed

lemma klv_loop_inv:
  "klv_loop ds ([], []) = Inr st \<Longrightarrow> klv_inv ds st"
proof (induction ds arbitrary: st rule: rev_induct)
  case Nil
  then show ?case by (auto simp: klv_inv_def)
next
  case (snoc d ds)
  then obtain st0 where a: "klv_loop ds ([], []) = Inr st0" and b: "klv_step st0 d = Inr st"
    by (auto simp: klv_loop_snoc split: sum.splits)
  show ?case using snoc.IH[OF a] b by (rule klv_step_inv)
qed

lemma doc_id_set_score [simp]: "doc_id (dict_set d ''score'' v) = doc_id d"
  by (simp add: doc_id_def dict_get_def dict_set_def update_conv')

lemma doc_version_set_score [simp]: "doc_version (dict_set d ''score'' v) = doc_version d"
  by (simp add: doc_version_def dict_get_def dict_set_def update_conv')

lemma dict_get_set_same [simp]: "dict_get (dict_set d k v) k dflt = v"
  by (simp add: dict_get_def dict_set_def update_conv')

lemma klv_inv_scores:
  "klv_inv ds (L, M) \<Longrightarrow> map_of M i = Some m \<Longrightarrow>
   \<exists>s ss. id_scores ds i = s # ss \<and> py_max_fold s ss = Inr m"
  unfolding klv_inv_def by blast

lemma klv_inv_rep:
  "klv_inv ds (L, M) \<Longrightarrow> map_of L i = Some r \<Longrightarrow> is_rep ds i r"
  unfolding klv_inv_def by blast

lemma klv_output:
  assumes "keep_latest_versions ds = Inr ys"
  obtains L M where "klv_inv ds (L, M)"
    and "ys = map (\<lambda>(i, d). dict_set d ''score'' (dict_get M i (PyNum 0))) L"
proof -
  from assms obtain L M where a: "klv_loop ds ([], []) = Inr (L, M)"
    and b: "ys = map (\<lambda>(i, d). dict_set d ''score'' (dict_get M i (PyNum 0))) L"
    by (auto simp: keep_latest_versions_def split: sum.splits)
  from a have "klv_inv ds (L, M)" by (rule klv_loop_inv)
  then show thesis using b by (rule that)
qed

lemma klv_ids:
  assumes "keep_latest_versions ds = Inr ys"
  shows "distinct (map doc_id ys)"
    and "set (map doc_id ys) = {doc_id d |d. d \<in> set ds \<and> truthy (doc_id d)}"
proof -
  from assms obtain L M where inv: "klv_inv ds (L, M)"
    and ys: "ys = map (\<lambda>(i, d). dict_set d ''score'' (dict_get M i (PyNum 0))) L"
    by (rule klv_output)
  have d: "distinct (map fst L)" using inv by (simp add: klv_inv_def)
  have "\<And>i r. (i, r) \<in> set L \<Longrightarrow> doc_id r = i"
  proof -
    fix i r assume "(i, r) \<in> set L"
    then have "map_of L i = Some r" using d by simp
    with inv have "is_rep ds i r" by (rule klv_inv_rep)
    then show "doc_id r = i" by (simp add: is_rep_def)
  qed
  then have m: "map doc_id ys = map fst L" unfolding ys by (induction L) auto
  show "distinct (map doc_id ys)" using d m by simp
  show "set (map doc_id ys) = {doc_id d |d. d \<in> set ds \<and> truthy (doc_id d)}"
    using inv unfolding m by (simp add: klv_inv_def)
qed

lemma klv_rep:
  assumes "keep_latest_versions ds = Inr ys" and "y \<in> set ys"
  shows "\<exists>r m s ss. y = dict_set r ''score'' m \<and> is_rep ds (doc_id y) r
           \<and> id_scores ds (doc_id y) = s # ss \<and> py_max_fold s ss = Inr m"
proof -
  from assms(1) obtain L M where inv: "klv_inv ds (L, M)"
    and ys: "ys = map (\<lambda>(i, d). dict_set d ''score'' (dict_get M i (PyNum 0))) L"
    by (rule klv_output)
  from assms(2) ys obtain i r where ir: "(i, r) \<in> set L"
    and y: "y = dict_set r ''score'' (dict_get M i (PyNum 0))" by auto
  have d: "distinct (map fst L)" using inv by (simp add: klv_inv_def)
  have mo: "map_of L i = Some r" using ir d by simp
  have rep: "is_rep ds i r" using inv mo by (rule klv_inv_rep)
  then have id: "doc_id y = i" by (simp add: y is_rep_def)
  have kM: "fst ` set M = fst ` set L" using inv by (simp add: klv_inv_def)
  from ir have "fst (i, r) \<in> fst ` set L" by (rule imageI)
  then have "i \<in> fst ` set M" using kM by simp
  then have "map_of M i \<noteq> None" by (simp add: map_of_None_fst)
  then obtain m where m: "map_of M i = Some m" by (cases "map_of M i") simp_all
  obtain s ss where s: "id_scores ds i = s # ss" "py_max_fold s ss = Inr m"
    using klv_inv_scores[OF inv m] by blast
  have "dict_get M i (PyNum 0) = m" using m by (simp add: dict_get_def)
  then have "y = dict_set r ''score'' m" using y by simp
  moreover have "is_rep ds (doc_id y) r" using rep id by simp
  moreover have "id_scores ds (doc_id y) = s # ss" using s id by simp
  ultimately show ?thesis using s(2) by blast
qed

subsection \<open>No error on catalogue documents\<close>

lemma py_max2_num: "py_max2 (PyNum a) (PyNum b) = Inr (PyNum (max a b))"
  by (simp add: py_max2_def max_def)

lemma py_max_fold_num:
  "py_max_fold (PyNum a) (map PyNum rs) = Inr (PyNum (fold max rs a))"
  by (induction rs arbitrary: a) (simp_all add: py_max2_num max.commute)

lemma catalog_score: "catalog_doc d \<Longrightarrow> dict_get d ''score'' (PyNum 0) = PyNum (score_num d)"
  by (auto simp: catalog_doc_def score_num_def split: pyval.splits)

lemma id_scores_catalog:
  "\<forall>d\<in>set ds. catalog_doc d \<Longrightarrow>
   id_scores ds i = map PyNum (map score_num (filter (\<lambda>d. doc_id d = i) ds))"
  by (induction ds) (auto simp: id_scores_def catalog_score)

lemma klv_step_total:
  assumes c: "catalog_doc d"
    and M: "\<forall>i m. map_of M i = Some m \<longrightarrow> (\<exists>r. m = PyNum r)"
  shows "\<exists>L' M'. klv_step (L, M) d = Inr (L', M')
           \<and> (\<forall>i m. map_of M' i = Some m \<longrightarrow> (\<exists>r. m = PyNum r))"
proof (cases "truthy (doc_id d)")
  case False
  then show ?thesis using M by (simp add: klv_step_falsy doc_id_def)
next
  case True
  have h: "hashable (doc_id d)" using c by (auto simp: catalog_doc_def split: pyval.splits)
  have s: "dict_get d ''score'' (PyNum 0) = PyNum (score_num d)" using c by (rule catalog_score)
  show ?thesis
  proof (cases "map_of M (doc_id d)")
    case None
    then show ?thesis using True h s M
      by (auto simp: klv_step_truthy dict_set_def update_conv')
  next
    case (Some m)
    then obtain r where "m = PyNum r" using M by blast
    then show ?thesis using True h s M Some
      by (auto simp: klv_step_truthy dict_set_def update_conv' py_max2_num)
  qed
qed

lemma klv_loop_total:
  assumes "\<forall>d\<in>set ds. catalog_doc d"
  shows "\<exists>L M. klv_loop ds ([], []) = Inr (L, M)
           \<and> (\<forall>i m. map_of M i = Some m \<longrightarrow> (\<exists>r. m = PyNum r))"
  using assms
proof (induction ds rule: rev_induct)
  case Nil
  then show ?case by simp
next
  case (snoc d ds)
  then obtain L M where a: "klv_loop ds ([], []) = Inr (L, M)"
    and b: "\<forall>i m. map_of M i = Some m \<longrightarrow> (\<exists>r. m = PyNum r)" by auto
  have "catalog_doc d" using snoc.prems by simp
  from klv_step_total[OF this b, of L] show ?case by (simp add: klv_loop_snoc a)
qed

lemma klv_total:
  "\<forall>d\<in>set ds. catalog_doc d \<Longrightarrow> \<exists>ys. keep_latest_versions ds = Inr ys"
  using klv_loop_total[of ds] by (auto simp: keep_latest_versions_def)

subsection \<open>Sorting with keys of one ordered type\<close>

lemma keys_of_typed:
  "\<forall>x\<in>set xs. key x = Inr (C (f x)) \<Longrightarrow> keys_of key xs = Inr (map (\<lambda>x. C (f x)) xs)"
  by (induction xs) simp_all

lemma comparable_keys_typed:
  assumes "\<And>a b. py_lt (C a) (C b) = Some (a < b)"
  shows "comparable_keys (map C ks)"
  by (induction ks) (simp_all add: assms list_all_iff)

lemma insort_lt_typed:
  fixes f :: "'a \<Rightarrow> 'k::linorder"
  assumes "\<And>a b. py_lt (C a) (C b) = Some (a < b)"
  shows "insort_lt (C (f x), x) (map (\<lambda>y. (C (f y), y)) ys)
           = map (\<lambda>y. (C (f y), y)) (insort_key f x ys)"
  by (induction ys) (auto simp: assms)

lemma sort_lt_typed:
  fixes f :: "'a \<Rightarrow> 'k::linorder"
  assumes "\<And>a b. py_lt (C a) (C b) = Some (a < b)"
  shows "sort_lt (map (\<lambda>y. (C (f y), y)) xs) = map (\<lambda>y. (C (f y), y)) (sort_key f xs)"
  unfolding sort_lt_def sort_key_def
  by (induction xs) (simp_all add: insort_lt_typed[OF assms])

lemma zip_map_self: "zip (map g xs) xs = map (\<lambda>y. (g y, y)) xs"
  by (induction xs) simp_all

lemma py_sorted_typed:
  fixes f :: "'a \<Rightarrow> 'k::linorder"
  assumes lt: "\<And>a b. py_lt (C a) (C b) = Some (a < b)"
    and keys: "\<forall>x\<in>set xs. key x = Inr (C (f x))"
  shows "py_sorted key reverse xs =
           Inr (if reverse then rev (sort_key f (rev xs)) else sort_key f xs)"
proof -
  have k: "keys_of key xs = Inr (map (\<lambda>x. C (f x)) xs)" using keys by (rule keys_of_typed)
  have c: "comparable_keys (map (\<lambda>x. C (f x)) xs)"
    using comparable_keys_typed[of C "map f xs", OF lt] by (simp add: comp_def)
  have s: "\<And>zs. map snd (sort_lt (map (\<lambda>y. (C (f y), y)) zs)) = sort_key f zs"
    by (simp add: sort_lt_typed[of C, OF lt] comp_def)
  show ?thesis
    using s[of xs] s[of "rev xs"]
    by (simp add: py_sorted_def k c zip_map_self rev_map[symmetric])
qed

lemma stable_asc_sort_key: "stable_asc f xs (sort_key f xs)"
  by (simp add: stable_asc_def sort_key_stable)

lemma stable_desc_sort_key: "stable_desc f xs (rev (sort_key f (rev xs)))"
  by (simp add: stable_desc_def rev_map[symmetric] rev_filter[symmetric] sort_key_stable)

subsection \<open>The sort keys on documents of the data model\<close>

lemma py_lt_str: "py_lt (PyStr a) (PyStr b) = Some (a < b)" by simp
lemma py_lt_num: "py_lt (PyNum a) (PyNum b) = Some (a < b)" by simp

lemma is_str_conv: "is_str v \<Longrightarrow> v = PyStr (str_of v)"
  by (cases v) (simp_all add: is_str_def str_of_def)

lemma key_date_sortable: "sortable_doc d \<Longrightarrow> key_date d = Inr (PyStr (date_of d))"
  by (simp add: sortable_doc_def key_date_def date_of_def is_str_conv[symmetric])

lemma key_id_sortable: "sortable_doc d \<Longrightarrow> key_id d = Inr (PyStr (folded_id d))"
proof -
  assume "sortable_doc d"
  then have "is_str (dict_get d ''id'' (PyStr ''''))" by (simp add: sortable_doc_def)
  then obtain s where s: "dict_get d ''id'' (PyStr '''') = PyStr s"
    using is_str_conv by blast
  show ?thesis by (simp add: key_id_def folded_id_def s str_of_def)
qed

lemma key_score_sortable: "sortable_doc d \<Longrightarrow> key_score d = Inr (PyNum (score_num d))"
  by (auto simp: sortable_doc_def key_score_def score_num_def split: pyval.splits)

lemma py_max2_str: "py_max2 (PyStr a) (PyStr b) = Inr (PyStr (max a b))"
  by (auto simp: py_max2_def max_def)

lemma py_max_fold_str:
  "py_max_fold (PyStr a) (map PyStr rs) = Inr (PyStr (fold max rs a))"
  by (induction rs arbitrary: a) (simp_all add: py_max2_str max.commute)

lemma map_str_of: "list_all is_str vs \<Longrightarrow> vs = map PyStr (map str_of vs)"
  by (induction vs) (auto dest: is_str_conv)

lemma key_version_sortable:
  assumes "sortable_doc d"
  shows "key_version d = Inr (PyStr (max_version d))"
proof -
  from assms obtain vs where g: "dict_get d ''gem5_versions'' (PyList [PyStr ''0'']) = PyList vs"
    and a: "list_all is_str vs"
    by (auto simp: sortable_doc_def split: pyval.splits)
  have v: "versions_of d = map str_of vs" by (simp add: versions_of_def g)
  show ?thesis
  proof (cases "map str_of vs")
    case Nil
    then show ?thesis by (simp add: key_version_def g py_max_default_def max_version_def v)
  next
    case (Cons s ss)
    then have vs: "vs = PyStr s # map PyStr ss" using map_str_of[OF a] by simp
    have "py_max_fold (PyStr s) (map PyStr ss) = Inr (PyStr (fold max ss s))"
      by (rule py_max_fold_str)
    also have "fold max ss s = Max (set (s # ss))" by (rule Max.set_eq_fold[symmetric])
    finally show ?thesis
      using Cons by (simp add: key_version_def g py_max_default_def max_version_def v vs)
  qed
qed

lemma mset_insort_lt: "mset (insort_lt x ys) = add_mset x (mset ys)"
  by (induction ys) simp_all

lemma mset_sort_lt: "mset (sort_lt kxs) = mset kxs"
  unfolding sort_lt_def by (induction kxs) (simp_all add: mset_insort_lt)

lemma keys_of_length: "keys_of key xs = Inr ks \<Longrightarrow> length ks = length xs"
  by (induction xs arbitrary: ks) (auto split: sum.splits)

lemma py_sorted_mset: "py_sorted key reverse xs = Inr ys \<Longrightarrow> mset ys = mset xs"
proof -
  assume a: "py_sorted key reverse xs = Inr ys"
  then obtain ks where k: "keys_of key xs = Inr ks"
    by (auto simp: py_sorted_def split: sum.splits)
  have l: "length ks = length xs" using k by (rule keys_of_length)
  have z: "mset (map snd (zip ks xs)) = mset xs" using l by simp
  have "ys = map snd (if reverse then rev (sort_lt (rev (zip ks xs))) else sort_lt (zip ks xs))"
    using a k by (auto simp: py_sorted_def split: if_splits)
  then have "mset ys = image_mset snd (mset (zip ks xs))"
    by (simp add: mset_sort_lt)
  then show ?thesis using z by simp
qed

lemma apply_sorting_mset: "apply_sorting xs p = Inr ys \<Longrightarrow> mset ys = mset xs"
  by (auto simp: apply_sorting_def split: if_splits dest: py_sorted_mset)

subsection \<open>Request validation and the shape of a response\<close>

lemma slice_nonneg:
  assumes "0 \<le> s" and "s \<le> e"
  shows "py_slice xs s e = take (nat (e - s)) (drop (nat s) xs)"
proof (cases "s \<le> int (length xs)")
  case True
  show ?thesis
  proof (cases "e \<le> int (length xs)")
    case True
    with \<open>s \<le> int (length xs)\<close> assms show ?thesis
      by (simp add: py_slice_def slice_bound_def Let_def min_def)
  next
    case False
    with True assms show ?thesis
      by (simp add: py_slice_def slice_bound_def Let_def min_def)
  qed
next
  case False
  with assms show ?thesis
    by (simp add: py_slice_def slice_bound_def Let_def min_def)
qed

lemma parse_pagination_valid:
  "parse_pagination params = Inr (page, page_size) \<Longrightarrow>
   1 \<le> page \<and> 1 \<le> page_size \<and> page_size \<le> 100"
  by (auto simp: parse_pagination_def split: option.splits if_splits)

lemma parse_pagination_error:
  "parse_pagination params = Inl r \<Longrightarrow> \<exists>msg. r = create_error_response 400 msg"
  by (auto simp: parse_pagination_def split: option.splits if_splits)

lemma parse_groups_error:
  "parse_groups gs q = Inl r \<Longrightarrow> \<exists>msg. r = create_error_response 400 msg"
proof (induction gs arbitrary: q)
  case Nil
  then show ?case by simp
next
  case (Cons g gs)
  then show ?case
    by (auto simp: Let_def split: if_splits list.splits)
qed

lemma parse_must_include_error:
  "parse_must_include m q = Inl r \<Longrightarrow> \<exists>msg. r = create_error_response 400 msg"
  by (auto simp: parse_must_include_def split: if_splits dest: parse_groups_error)

subsection \<open>Successful requests\<close>

lemma status_error [simp]: "status_code (create_error_response c msg) = c"
  by (simp add: create_error_response_def)

lemma body_error [simp]: "body (create_error_response c msg) = ErrorBody msg"
  by (simp add: create_error_response_def)

lemma search_resources_ok:
  assumes run: "search_resources client params = (resp, calls)"
    and ok: "status_code resp = 200 \<or> (\<exists>docs total. body resp = DocumentsBody docs total)"
  shows "\<exists>page ps q args results ranked.
           parse_pagination params = Inr (page, ps) \<and> calls = [args]
         \<and> client args = Inr results \<and> ranked_results results q = Inr ranked
         \<and> resp = paginate_response ranked page ps"
proof (cases "parse_pagination params")
  case (Inl r)
  then have "resp = r" using run by (simp add: search_resources_def Let_def)
  then show ?thesis using ok parse_pagination_error[OF Inl] by auto
next
  case (Inr pp)
  obtain page ps where pp: "pp = (page, ps)" by (cases pp)
  define cs where "cs = sanitize_contains_str (py_strip (dict_get params ''contains-str'' ''''))"
  define q0 where "q0 = [(''query'', QStr cs), (''sort'', QStr (sort_of_request params))]"
  define mi where "mi = sanitize_must_include (dict_get params ''must-include'' '''')"
  show ?thesis
  proof (cases "parse_must_include mi q0")
    case (Inl r)
    then have "resp = r" using run Inr pp
      by (simp add: search_resources_def Let_def cs_def q0_def mi_def)
    then show ?thesis using ok parse_must_include_error[OF Inl] by auto
  next
    case q: (Inr q)
    define args where "args = \<lparr>search_text = fst (build_search_text cs),
                            filter_expr = build_odata_filter q,
                            include_total_count = True,
                            top_n = 1000,
                            query_type = snd (build_search_text cs)\<rparr>"
    have "search_resources client params = (case client args of
                     Inl e \<Rightarrow> (create_error_response 500 ''Internal server error'', [args])
                   | Inr results \<Rightarrow>
                       (case ranked_results results q of
                          Inl e \<Rightarrow>
                            (create_error_response 500 ''Internal server error'', [args])
                        | Inr sorted_resources \<Rightarrow>
                            (paginate_response sorted_resources page ps, [args])))"
      unfolding search_resources_def Let_def args_def cs_def
      using Inr pp q[unfolded mi_def q0_def cs_def] by simp
    then have run': "(resp, calls) = (case client args of
                     Inl e \<Rightarrow> (create_error_response 500 ''Internal server error'', [args])
                   | Inr results \<Rightarrow>
                       (case ranked_results results q of
                          Inl e \<Rightarrow>
                            (create_error_response 500 ''Internal server error'', [args])
                        | Inr sorted_resources \<Rightarrow>
                            (paginate_response sorted_resources page ps, [args])))"
      using run by simp
    show ?thesis
    proof (cases "client args")
      case (Inl e)
      then show ?thesis using run' ok by auto
    next
      case res: (Inr results)
      show ?thesis
      proof (cases "ranked_results results q")
        case (Inl e)
        then show ?thesis using run' res ok by auto
      next
        case (Inr sorted_resources)
        then have "resp = paginate_response sorted_resources page ps" "calls = [args]"
          using run' res by simp_all
        then show ?thesis using \<open>parse_pagination params = Inr pp\<close> pp res Inr by blast
      qed
    qed
  qed
qed

lemma ranked_results_consolidated:
  "ranked_results results q = Inr ranked \<Longrightarrow>
   \<exists>unique. keep_latest_versions (map add_score results) = Inr unique \<and> mset ranked = mset unique"
  by (auto simp: ranked_results_def split: sum.splits dest: apply_sorting_mset)

subsection \<open>Malformed filters\<close>












subsection \<open>Clauses that name no filterable field\<close>












section \<open>One latest document per logical id\<close>

text \<open>
  C1: the consolidated output holds exactly one document for every truthy logical id of
  the candidates and none for any other id (the ids of the output are pairwise distinct
  and are exactly the truthy ids of the input), and every output document is one of the
  candidates, with only its score overwritten, such that every same-id candidate before
  it in the input has a strictly smaller parsed version and every same-id candidate
  after it has a parsed version that is at most its own: its version is maximal among
  the candidates of its id, and among candidates of equal maximal version the first one
  seen is kept. On documents of the catalogue's data model the consolidation raises no
  error.
\<close>

theorem consolidation_one_latest_per_id:
  "(list_all catalog_doc ds \<longrightarrow> (\<exists>ys. keep_latest_versions ds = Inr ys)) \<and>
   (\<forall>ys. keep_latest_versions ds = Inr ys \<longrightarrow>
      distinct (map doc_id ys) \<and>
      set (map doc_id ys) = {doc_id d |d. d \<in> set ds \<and> truthy (doc_id d)} \<and>
      (\<forall>y\<in>set ys. \<exists>pre x post m.
          ds = pre @ x # post \<and> y = dict_set x ''score'' m \<and> doc_id y = doc_id x
        \<and> (\<forall>p\<in>set pre. doc_id p = doc_id x \<longrightarrow> doc_version p < doc_version x)
        \<and> (\<forall>q\<in>set post. doc_id q = doc_id x \<longrightarrow> doc_version q \<le> doc_version x)))"
proof (intro conjI impI allI ballI)
  assume "list_all catalog_doc ds"
  then show "\<exists>ys. keep_latest_versions ds = Inr ys"
    by (intro klv_total) (simp add: list_all_iff)
next
  fix ys assume "keep_latest_versions ds = Inr ys"
  then show "distinct (map doc_id ys)" by (rule klv_ids(1))
next
  fix ys assume "keep_latest_versions ds = Inr ys"
  then show "set (map doc_id ys) = {doc_id d |d. d \<in> set ds \<and> truthy (doc_id d)}"
    by (rule klv_ids(2))
next
  fix ys y assume k: "keep_latest_versions ds = Inr ys" and y: "y \<in> set ys"
  from klv_rep[OF k y] obtain r m where ym: "y = dict_set r ''score'' m"
    and rep: "is_rep ds (doc_id y) r" by blast
  from rep obtain pre post where dec: "ds = pre @ r # post"
    and idr: "doc_id r = doc_id y"
    and before: "\<forall>p\<in>set pre. doc_id p = doc_id y \<longrightarrow> doc_version p < doc_version r"
    and after: "\<forall>q\<in>set post. doc_id q = doc_id y \<longrightarrow> doc_version q \<le> doc_version r"
    unfolding is_rep_def by blast
  show "\<exists>pre x post m.
          ds = pre @ x # post \<and> y = dict_set x ''score'' m \<and> doc_id y = doc_id x
        \<and> (\<forall>p\<in>set pre. doc_id p = doc_id x \<longrightarrow> doc_version p < doc_version x)
        \<and> (\<forall>q\<in>set post. doc_id q = doc_id x \<longrightarrow> doc_version q \<le> doc_version x)"
    apply (rule exI[of _ pre], rule exI[of _ r], rule exI[of _ post], rule exI[of _ m])
    using dec ym idr before after by simp
qed

theorem consolidation_one_latest_per_id_witness:
  "list_all catalog_doc [r1_v1, r2_one, r1_v2, r1_v2_dup]
   \<and> keep_latest_versions [r1_v1, r2_one, r1_v2, r1_v2_dup]
       = Inr [r1_out, dict_set r2_one ''score'' (PyNum 0)]
   \<and> distinct (map doc_id [r1_out, dict_set r2_one ''score'' (PyNum 0)])
   \<and> set (map doc_id [r1_out, dict_set r2_one ''score'' (PyNum 0)])
       = {doc_id d |d. d \<in> set [r1_v1, r2_one, r1_v2, r1_v2_dup] \<and> truthy (doc_id d)}
   \<and> map doc_id [r1_out, dict_set r2_one ''score'' (PyNum 0)] = [PyStr ''R1'', PyStr ''R2'']
   \<and> r1_out = dict_set r1_v2 ''score'' (PyNum 5)
   \<and> (\<exists>pre x post m.
          [r1_v1, r2_one, r1_v2, r1_v2_dup] = pre @ x # post \<and> r1_out = dict_set x ''score'' m
        \<and> doc_id r1_out = doc_id x
        \<and> (\<forall>p\<in>set pre. doc_id p = doc_id x \<longrightarrow> doc_version p < doc_version x)
        \<and> (\<forall>q\<in>set post. doc_id q = doc_id x \<longrightarrow> doc_version q \<le> doc_version x))"
proof -
  have c: "list_all catalog_doc [r1_v1, r2_one, r1_v2, r1_v2_dup]" by code_simp
  have k: "keep_latest_versions [r1_v1, r2_one, r1_v2, r1_v2_dup]
       = Inr [r1_out, dict_set r2_one ''score'' (PyNum 0)]" by code_simp
  have i: "map doc_id [r1_out, dict_set r2_one ''score'' (PyNum 0)] = [PyStr ''R1'', PyStr ''R2'']"
    by code_simp
  have o: "r1_out = dict_set r1_v2 ''score'' (PyNum 5)" by code_simp
  have all: "distinct (map doc_id [r1_out, dict_set r2_one ''score'' (PyNum 0)]) \<and>
      set (map doc_id [r1_out, dict_set r2_one ''score'' (PyNum 0)])
        = {doc_id d |d. d \<in> set [r1_v1, r2_one, r1_v2, r1_v2_dup] \<and> truthy (doc_id d)} \<and>
      (\<forall>y\<in>set [r1_out, dict_set r2_one ''score'' (PyNum 0)]. \<exists>pre x post m.
          [r1_v1, r2_one, r1_v2, r1_v2_dup] = pre @ x # post \<and> y = dict_set x ''score'' m
        \<and> doc_id y = doc_id x
        \<and> (\<forall>p\<in>set pre. doc_id p = doc_id x \<longrightarrow> doc_version p < doc_version x)
        \<and> (\<forall>q\<in>set post. doc_id q = doc_id x \<longrightarrow> doc_version q \<le> doc_version x))"
    by (rule conjunct2[OF consolidation_one_latest_per_id, rule_format, OF k])
  have d: "distinct (map doc_id [r1_out, dict_set r2_one ''score'' (PyNum 0)])"
    using all by (rule conjunct1)
  have s: "set (map doc_id [r1_out, dict_set r2_one ''score'' (PyNum 0)])
        = {doc_id d |d. d \<in> set [r1_v1, r2_one, r1_v2, r1_v2_dup] \<and> truthy (doc_id d)}"
    using all by (rule conjunct1[OF conjunct2])
  have r: "\<exists>pre x post m.
          [r1_v1, r2_one, r1_v2, r1_v2_dup] = pre @ x # post \<and> r1_out = dict_set x ''score'' m
        \<and> doc_id r1_out = doc_id x
        \<and> (\<forall>p\<in>set pre. doc_id p = doc_id x \<longrightarrow> doc_version p < doc_version x)
        \<and> (\<forall>q\<in>set post. doc_id q = doc_id x \<longrightarrow> doc_version q \<le> doc_version x)"
    using conjunct2[OF conjunct2[OF all]] by simp
  show ?thesis using c k d s i o r by (intro conjI)
qed

section \<open>Score propagation\<close>

lemma rep_score_max:
  assumes c: "\<forall>d\<in>set ds. catalog_doc d"
    and k: "keep_latest_versions ds = Inr ys" and y: "y \<in> set ys"
  shows "dict_get y ''score'' PyNone =
           PyNum (Max {score_num d |d. d \<in> set ds \<and> doc_id d = doc_id y})"
proof -
  from klv_rep[OF k y] obtain r m s ss where ym: "y = dict_set r ''score'' m"
    and sc: "id_scores ds (doc_id y) = s # ss" and mf: "py_max_fold s ss = Inr m" by blast
  define rs where "rs = map score_num (filter (\<lambda>d. doc_id d = doc_id y) ds)"
  have e: "s # ss = map PyNum rs" using sc id_scores_catalog[OF c, of "doc_id y"] by (simp add: rs_def)
  then obtain a rs' where rs: "rs = a # rs'" by (cases rs) auto
  then have "s = PyNum a" "ss = map PyNum rs'" using e by auto
  then have "m = PyNum (fold max rs' a)" using mf by (simp add: py_max_fold_num)
  also have "fold max rs' a = Max (set rs)" unfolding rs by (rule Max.set_eq_fold[symmetric])
  also have "set rs = {score_num d |d. d \<in> set ds \<and> doc_id d = doc_id y}"
    by (auto simp: rs_def)
  finally show ?thesis by (simp add: ym)
qed

text \<open>
  C2: on documents of the catalogue's data model (numeric scores) the consolidation
  returns a list that has a representative for exactly the truthy ids of the candidates,
  and the score of every representative is the maximum of the scores of all candidates
  with its id, whichever of them was chosen as representative.
\<close>

theorem representative_score_is_max:
  assumes "list_all catalog_doc ds"
  shows "\<exists>ys. keep_latest_versions ds = Inr ys
           \<and> set (map doc_id ys) = {doc_id d |d. d \<in> set ds \<and> truthy (doc_id d)}
           \<and> (\<forall>y\<in>set ys. dict_get y ''score'' PyNone =
                  PyNum (Max {score_num d |d. d \<in> set ds \<and> doc_id d = doc_id y}))"
proof -
  have c: "\<forall>d\<in>set ds. catalog_doc d" using assms by (simp add: list_all_iff)
  then obtain ys where k: "keep_latest_versions ds = Inr ys" using klv_total by blast
  have "set (map doc_id ys) = {doc_id d |d. d \<in> set ds \<and> truthy (doc_id d)}"
    using k by (rule klv_ids(2))
  moreover have "\<forall>y\<in>set ys. dict_get y ''score'' PyNone =
                  PyNum (Max {score_num d |d. d \<in> set ds \<and> doc_id d = doc_id y})"
    using rep_score_max[OF c k] by blast
  ultimately show ?thesis using k by blast
qed

theorem representative_score_is_max_witness:
  "list_all catalog_doc [r1_v1, r1_v2]
   \<and> keep_latest_versions [r1_v1, r1_v2] = Inr [r1_out]
   \<and> dict_get r1_out ''resource_version'' PyNone = PyStr ''2.0.0''
   \<and> score_num r1_v2 = 2
   \<and> dict_get r1_out ''score'' PyNone = PyNum 5
   \<and> PyNum 5 = PyNum (Max {score_num d |d. d \<in> set [r1_v1, r1_v2] \<and> doc_id d = doc_id r1_out})"
proof -
  have c: "list_all catalog_doc [r1_v1, r1_v2]" by code_simp
  have k: "keep_latest_versions [r1_v1, r1_v2] = Inr [r1_out]" by code_simp
  have v: "dict_get r1_out ''resource_version'' PyNone = PyStr ''2.0.0''" by code_simp
  have s: "dict_get r1_out ''score'' PyNone = PyNum 5" by code_simp
  have n: "score_num r1_v2 = 2" by code_simp
  show ?thesis
    using c k v s n representative_score_is_max[OF c] by simp
qed

section \<open>Unparseable versions\<close>

text \<open>
  C3, as stated, fails: the sentinel \<open>(0, 0, 0)\<close> is not below every well-formed version.
  The well-formed \<open>0.0\<close> parses to \<open>(0, 0)\<close>, which is smaller, so a later document with
  the unparseable version \<open>bad\<close> replaces it; and \<open>0.0.0\<close> ties with the sentinel, so
  an unparseable document seen first is kept.
\<close>

theorem unparseable_version_selected:
  "\<not> version_parses ''bad'' \<and> version_parses ''0.0'' \<and> version_parses ''0.0.0''
   \<and> doc_id r2_short = doc_id r2_bad \<and> doc_id r2_zero = doc_id r2_bad
   \<and> keep_latest_versions [r2_short, r2_bad] = Inr [dict_set r2_bad ''score'' (PyNum 0)]
   \<and> keep_latest_versions [r2_bad, r2_zero] = Inr [dict_set r2_bad ''score'' (PyNum 0)]"
  by code_simp

text \<open>
  C3, amended: \<open>parse_version\<close> maps every version string that fails to parse to
  \<open>(0, 0, 0)\<close>, and a document with an unparseable version is representative of its id
  only if no candidate of that id has a parsed version above \<open>(0, 0, 0)\<close>: it is never
  selected over a same-id candidate whose parsed version is greater than \<open>(0, 0, 0)\<close>.
\<close>

theorem unparseable_version_sentinel:
  "(\<not> version_parses s \<longrightarrow> parse_version (PyStr s) = [0, 0, 0]) \<and>
   (\<forall>ys y x. keep_latest_versions ds = Inr ys \<and> y \<in> set ys
       \<and> dict_get y ''resource_version'' (PyStr ''0.0.0'') = PyStr s
       \<and> \<not> version_parses s \<and> x \<in> set ds \<and> doc_id x = doc_id y
      \<longrightarrow> doc_version x \<le> [0, 0, 0])"
proof (intro conjI impI allI)
  assume "\<not> version_parses s"
  then show "parse_version (PyStr s) = [0, 0, 0]" by (simp add: version_parses_def)
next
  fix ys y x
  assume a: "keep_latest_versions ds = Inr ys \<and> y \<in> set ys
       \<and> dict_get y ''resource_version'' (PyStr ''0.0.0'') = PyStr s
       \<and> \<not> version_parses s \<and> x \<in> set ds \<and> doc_id x = doc_id y"
  then have k: "keep_latest_versions ds = Inr ys" and y: "y \<in> set ys" by simp_all
  from klv_rep[OF k y] obtain r m where ym: "y = dict_set r ''score'' m"
    and rep: "is_rep ds (doc_id y) r" by blast
  have "doc_version x \<le> doc_version r" using rep a by (auto intro: is_rep_bound)
  also have "doc_version r = doc_version y" by (simp add: ym)
  also have "\<dots> = [0, 0, 0]" using a by (simp add: doc_version_def version_parses_def)
  finally show "doc_version x \<le> [0, 0, 0]" .
qed

theorem unparseable_version_sentinel_witness:
  "\<not> version_parses ''bad'' \<and> parse_version (PyStr ''bad'') = [0, 0, 0]
   \<and> keep_latest_versions [r2_bad, r2_one] = Inr [dict_set r2_one ''score'' (PyNum 0)]
   \<and> keep_latest_versions [r2_short, r2_bad] = Inr [dict_set r2_bad ''score'' (PyNum 0)]
   \<and> dict_get (dict_set r2_bad ''score'' (PyNum 0)) ''resource_version'' (PyStr ''0.0.0'')
       = PyStr ''bad''
   \<and> doc_id r2_short = doc_id (dict_set r2_bad ''score'' (PyNum 0))
   \<and> doc_version r2_short \<le> [0, 0, 0]"
proof -
  have 1: "\<not> version_parses ''bad''" by code_simp
  have 2: "keep_latest_versions [r2_bad, r2_one] = Inr [dict_set r2_one ''score'' (PyNum 0)]"
    by code_simp
  have 3: "keep_latest_versions [r2_short, r2_bad] = Inr [dict_set r2_bad ''score'' (PyNum 0)]"
    by code_simp
  have 4: "dict_get (dict_set r2_bad ''score'' (PyNum 0)) ''resource_version'' (PyStr ''0.0.0'')
       = PyStr ''bad''" by code_simp
  have 5: "doc_id r2_short = doc_id (dict_set r2_bad ''score'' (PyNum 0))" by code_simp
  have 6: "r2_short \<in> set [r2_short, r2_bad]" by simp
  show ?thesis
    using 1 2 3 4 5 6 unparseable_version_sentinel[of "''bad''" "[r2_short, r2_bad]"]
    by simp
qed

section \<open>Ranking is a stable sort\<close>

text \<open>
  C6: on documents of the catalogue's data model \<open>apply_sorting\<close> raises no error and
  returns the documents in a stable order: by date descending for \<open>date\<close>, by case-folded
  id ascending for \<open>name\<close> and \<open>id_asc\<close> and descending for \<open>id_desc\<close>, by the greatest
  element of \<open>gem5_versions\<close> descending for \<open>version\<close>, by score descending for
  \<open>default\<close>; every sort parameter that is none of the five tokens is treated as
  \<open>default\<close>. In particular the case-folded ids of the result are ascending for
  \<open>id_asc\<close> and descending for \<open>id_desc\<close>.
\<close>

theorem apply_sorting_stable:
  assumes "list_all sortable_doc ds"
  shows "(\<exists>ys. apply_sorting ds (QStr ''date'') = Inr ys \<and> stable_desc date_of ds ys)
       \<and> (\<exists>ys. apply_sorting ds (QStr ''name'') = Inr ys \<and> stable_asc folded_id ds ys)
       \<and> (\<exists>ys. apply_sorting ds (QStr ''id_asc'') = Inr ys \<and> stable_asc folded_id ds ys
              \<and> sorted (map folded_id ys))
       \<and> (\<exists>ys. apply_sorting ds (QStr ''id_desc'') = Inr ys \<and> stable_desc folded_id ds ys
              \<and> sorted (rev (map folded_id ys)))
       \<and> (\<exists>ys. apply_sorting ds (QStr ''version'') = Inr ys \<and> stable_desc max_version ds ys)
       \<and> (\<exists>ys. apply_sorting ds (QStr ''default'') = Inr ys \<and> stable_desc score_num ds ys)
       \<and> (\<forall>p. p \<notin> QStr ` set sort_tokens \<longrightarrow>
              apply_sorting ds p = apply_sorting ds (QStr ''default''))"
proof -
  have s: "\<forall>d\<in>set ds. sortable_doc d" using assms by (simp add: list_all_iff)
  have kd: "\<forall>d\<in>set ds. key_date d = Inr (PyStr (date_of d))"
    using s by (simp add: key_date_sortable)
  have ki: "\<forall>d\<in>set ds. key_id d = Inr (PyStr (folded_id d))"
    using s by (simp add: key_id_sortable)
  have kv: "\<forall>d\<in>set ds. key_version d = Inr (PyStr (max_version d))"
    using s by (simp add: key_version_sortable)
  have ks: "\<forall>d\<in>set ds. key_score d = Inr (PyNum (score_num d))"
    using s by (simp add: key_score_sortable)
  have 1: "apply_sorting ds (QStr ''date'') = Inr (rev (sort_key date_of (rev ds)))"
    by (simp add: apply_sorting_def py_sorted_typed[of PyStr, OF py_lt_str kd])
  have 2: "apply_sorting ds (QStr ''name'') = Inr (sort_key folded_id ds)"
    by (simp add: apply_sorting_def py_sorted_typed[of PyStr, OF py_lt_str ki])
  have 3: "apply_sorting ds (QStr ''id_asc'') = Inr (sort_key folded_id ds)"
    by (simp add: apply_sorting_def py_sorted_typed[of PyStr, OF py_lt_str ki])
  have 4: "apply_sorting ds (QStr ''id_desc'') = Inr (rev (sort_key folded_id (rev ds)))"
    by (simp add: apply_sorting_def py_sorted_typed[of PyStr, OF py_lt_str ki])
  have 5: "apply_sorting ds (QStr ''version'') = Inr (rev (sort_key max_version (rev ds)))"
    by (simp add: apply_sorting_def py_sorted_typed[of PyStr, OF py_lt_str kv])
  have 6: "apply_sorting ds (QStr ''default'') = Inr (rev (sort_key score_num (rev ds)))"
    by (simp add: apply_sorting_def py_sorted_typed[of PyNum, OF py_lt_num ks])
  have 7: "\<forall>p. p \<notin> QStr ` set sort_tokens \<longrightarrow>
              apply_sorting ds p = apply_sorting ds (QStr ''default'')"
    by (auto simp: apply_sorting_def sort_tokens_def)
  have a: "sorted (map folded_id (sort_key folded_id ds))" by simp
  have b: "sorted (rev (map folded_id (rev (sort_key folded_id (rev ds)))))"
    by (simp add: rev_map[symmetric])
  have c1: "\<exists>ys. apply_sorting ds (QStr ''date'') = Inr ys \<and> stable_desc date_of ds ys"
    by (simp add: 1 stable_desc_sort_key)
  have c2: "\<exists>ys. apply_sorting ds (QStr ''name'') = Inr ys \<and> stable_asc folded_id ds ys"
    by (simp add: 2 stable_asc_sort_key)
  have c3: "\<exists>ys. apply_sorting ds (QStr ''id_asc'') = Inr ys \<and> stable_asc folded_id ds ys
              \<and> sorted (map folded_id ys)"
    by (simp add: 3 stable_asc_sort_key a)
  have c4: "\<exists>ys. apply_sorting ds (QStr ''id_desc'') = Inr ys \<and> stable_desc folded_id ds ys
              \<and> sorted (rev (map folded_id ys))"
    using b by (simp add: 4 stable_desc_sort_key)
  have c5: "\<exists>ys. apply_sorting ds (QStr ''version'') = Inr ys \<and> stable_desc max_version ds ys"
    by (simp add: 5 stable_desc_sort_key)
  have c6: "\<exists>ys. apply_sorting ds (QStr ''default'') = Inr ys \<and> stable_desc score_num ds ys"
    by (simp add: 6 stable_desc_sort_key)
  show ?thesis
    by (intro conjI) (rule c1, rule c2, rule c3, rule c4, rule c5, rule c6, rule 7)
qed

theorem apply_sorting_stable_witness:
  "list_all sortable_doc [s_b, s_A, s_a]
   \<and> apply_sorting [s_b, s_A, s_a] (QStr ''id_asc'') = Inr [s_A, s_a, s_b]
   \<and> apply_sorting [s_b, s_A, s_a] (QStr ''id_desc'') = Inr [s_b, s_A, s_a]
   \<and> apply_sorting [s_b, s_A, s_a] (QStr ''date'') = Inr [s_a, s_b, s_A]
   \<and> apply_sorting [s_b, s_A, s_a] (QStr ''version'') = Inr [s_b, s_A, s_a]
   \<and> apply_sorting [s_b, s_A, s_a] (QStr ''default'') = Inr [s_A, s_a, s_b]
   \<and> apply_sorting [s_b, s_A, s_a] (QStr ''relevance'') = Inr [s_A, s_a, s_b]
   \<and> stable_asc folded_id [s_b, s_A, s_a] [s_A, s_a, s_b]
   \<and> stable_desc folded_id [s_b, s_A, s_a] [s_b, s_A, s_a]"
proof -
  have c: "list_all sortable_doc [s_b, s_A, s_a]" by code_simp
  have k1: "key_id s_b = Inr (PyStr ''b'')" by code_simp
  have k2: "key_id s_A = Inr (PyStr ''a'')" by code_simp
  have k3: "key_id s_a = Inr (PyStr ''a'')" by code_simp
  have d1: "key_date s_b = Inr (PyStr ''2024-05-01'')" by code_simp
  have d2: "key_date s_A = Inr (PyStr [])" by code_simp
  have d3: "key_date s_a = Inr (PyStr ''2025-01-01'')" by code_simp
  have v1: "key_version s_b = Inr (PyStr ''24.1'')" by code_simp
  have v2: "key_version s_A = Inr (PyStr ''0'')" by code_simp
  have v3: "key_version s_a = Inr (PyStr ''0'')" by code_simp
  have s1: "key_score s_b = Inr (PyNum 1)" by code_simp
  have s2: "key_score s_A = Inr (PyNum 3)" by code_simp
  have s3: "key_score s_a = Inr (PyNum 3)" by code_simp
  have 1: "apply_sorting [s_b, s_A, s_a] (QStr ''id_asc'') = Inr [s_A, s_a, s_b]"
    by (auto simp: apply_sorting_def py_sorted_def sort_lt_def k1 k2 k3)
  have 2: "apply_sorting [s_b, s_A, s_a] (QStr ''id_desc'') = Inr [s_b, s_A, s_a]"
    by (auto simp: apply_sorting_def py_sorted_def sort_lt_def k1 k2 k3)
  have 3: "apply_sorting [s_b, s_A, s_a] (QStr ''date'') = Inr [s_a, s_b, s_A]"
    by (auto simp: apply_sorting_def py_sorted_def sort_lt_def d1 d2 d3)
  have 4: "apply_sorting [s_b, s_A, s_a] (QStr ''version'') = Inr [s_b, s_A, s_a]"
    by (auto simp: apply_sorting_def py_sorted_def sort_lt_def v1 v2 v3)
  have 5: "apply_sorting [s_b, s_A, s_a] (QStr ''default'') = Inr [s_A, s_a, s_b]"
    by (auto simp: apply_sorting_def py_sorted_def sort_lt_def s1 s2 s3)
  have 6: "apply_sorting [s_b, s_A, s_a] (QStr ''relevance'') = Inr [s_A, s_a, s_b]"
    by (auto simp: apply_sorting_def py_sorted_def sort_lt_def s1 s2 s3)
  have "stable_asc folded_id [s_b, s_A, s_a] [s_A, s_a, s_b]
      \<and> stable_desc folded_id [s_b, s_A, s_a] [s_b, s_A, s_a]"
    using 1 2 apply_sorting_stable[OF c] by simp
  then show ?thesis using c 1 2 3 4 5 6 by simp
qed

section \<open>Pagination\<close>

lemma paginate_response_valid:
  assumes "1 \<le> page" and "1 \<le> page_size"
  shows "paginate_response ds page page_size =
           \<lparr>status_code = 200,
            body = DocumentsBody
                     (map clean_resource
                        (take (nat page_size) (drop (nat ((page - 1) * page_size)) ds)))
                     (length ds)\<rparr>"
proof -
  have "0 \<le> (page - 1) * page_size" using assms by simp
  moreover have "(page - 1) * page_size \<le> (page - 1) * page_size + page_size" using assms by simp
  ultimately have "py_slice ds ((page - 1) * page_size) ((page - 1) * page_size + page_size)
      = take (nat page_size) (drop (nat ((page - 1) * page_size)) ds)"
    by (simp add: slice_nonneg)
  then show ?thesis by (simp add: paginate_response_def Let_def)
qed

text \<open>
  C4: for a valid page and page size the documents of the response are the ranked
  documents at offsets \<open>(page - 1) * page_size\<close> up to \<open>(page - 1) * page_size + page_size\<close>,
  clipped to the list (each passed through the cleanup of the response): at most
  \<open>page_size\<close> of them, and none when the page lies beyond the results; the total count
  is the length of the whole ranked list whatever the page. Every response of the
  endpoint with status 200 is such a page, for the validated page and page size of the
  request, of a rearrangement of the consolidated results, and its total count is the
  number of consolidated documents.
\<close>

theorem pagination_window:
  "(1 \<le> page \<and> 1 \<le> page_size \<and> page_size \<le> 100 \<longrightarrow>
      paginate_response ds page page_size =
        \<lparr>status_code = 200,
         body = DocumentsBody
                  (map clean_resource
                     (take (nat page_size) (drop (nat ((page - 1) * page_size)) ds)))
                  (length ds)\<rparr>
      \<and> length (take (nat page_size) (drop (nat ((page - 1) * page_size)) ds)) \<le> nat page_size
      \<and> (\<forall>i < length (take (nat page_size) (drop (nat ((page - 1) * page_size)) ds)).
            take (nat page_size) (drop (nat ((page - 1) * page_size)) ds) ! i
              = ds ! (nat ((page - 1) * page_size) + i))
      \<and> (int (length ds) \<le> (page - 1) * page_size \<longrightarrow>
            take (nat page_size) (drop (nat ((page - 1) * page_size)) ds) = []))
   \<and> (\<forall>client params resp calls.
         search_resources client params = (resp, calls) \<and> status_code resp = 200 \<longrightarrow>
         (\<exists>p ps results unique ranked.
             1 \<le> p \<and> 1 \<le> ps \<and> ps \<le> 100
           \<and> int_param params ''page'' 1 = Some p \<and> int_param params ''page-size'' 10 = Some ps
           \<and> keep_latest_versions (map add_score results) = Inr unique
           \<and> mset ranked = mset unique
           \<and> resp = paginate_response ranked p ps
           \<and> body resp = DocumentsBody
                  (map clean_resource (take (nat ps) (drop (nat ((p - 1) * ps)) ranked)))
                  (length unique)))"
proof (intro conjI impI allI)
  assume a: "1 \<le> page \<and> 1 \<le> page_size \<and> page_size \<le> 100"
  then show "paginate_response ds page page_size =
        \<lparr>status_code = 200,
         body = DocumentsBody
                  (map clean_resource
                     (take (nat page_size) (drop (nat ((page - 1) * page_size)) ds)))
                  (length ds)\<rparr>"
    by (simp add: paginate_response_valid)
  show "length (take (nat page_size) (drop (nat ((page - 1) * page_size)) ds)) \<le> nat page_size"
    by simp
  show "take (nat page_size) (drop (nat ((page - 1) * page_size)) ds) = []"
    if "int (length ds) \<le> (page - 1) * page_size"
    using that by simp
next
  fix i
  assume "i < length (take (nat page_size) (drop (nat ((page - 1) * page_size)) ds))"
  then have "i < nat page_size" "nat ((page - 1) * page_size) \<le> length ds" by auto
  then show "take (nat page_size) (drop (nat ((page - 1) * page_size)) ds) ! i
              = ds ! (nat ((page - 1) * page_size) + i)"
    by (simp add: nth_drop)
next
  fix client params resp calls
  assume a: "search_resources client params = (resp, calls) \<and> status_code resp = 200"
  then obtain p ps q args results ranked where
    pp: "parse_pagination params = Inr (p, ps)"
    and rr: "ranked_results results q = Inr ranked"
    and resp: "resp = paginate_response ranked p ps"
    using search_resources_ok[of client params resp calls] by blast
  have v: "1 \<le> p \<and> 1 \<le> ps \<and> ps \<le> 100" using pp by (rule parse_pagination_valid)
  have ip: "int_param params ''page'' 1 = Some p \<and> int_param params ''page-size'' 10 = Some ps"
    using pp by (auto simp: parse_pagination_def split: option.splits if_splits)
  from ranked_results_consolidated[OF rr] obtain unique where
    u: "keep_latest_versions (map add_score results) = Inr unique" "mset ranked = mset unique"
    by blast
  have l: "length ranked = length unique" using u(2) by (rule mset_eq_length)
  have b: "body resp = DocumentsBody
                  (map clean_resource (take (nat ps) (drop (nat ((p - 1) * ps)) ranked)))
                  (length unique)"
    using v l by (simp add: resp paginate_response_valid)
  show "\<exists>p ps results unique ranked.
             1 \<le> p \<and> 1 \<le> ps \<and> ps \<le> 100
           \<and> int_param params ''page'' 1 = Some p \<and> int_param params ''page-size'' 10 = Some ps
           \<and> keep_latest_versions (map add_score results) = Inr unique
           \<and> mset ranked = mset unique
           \<and> resp = paginate_response ranked p ps
           \<and> body resp = DocumentsBody
                  (map clean_resource (take (nat ps) (drop (nat ((p - 1) * ps)) ranked)))
                  (length unique)"
    using v ip u resp b by blast
qed

theorem pagination_window_witness:
  "paginate_response [s_b, s_A, s_a] 2 1
     = \<lparr>status_code = 200, body = DocumentsBody [clean_resource s_A] 3\<rparr>
   \<and> paginate_response [s_b, s_A, s_a] 100 10 = \<lparr>status_code = 200, body = DocumentsBody [] 3\<rparr>
   \<and> search_resources three_hits [(''page'', ''100''), (''page-size'', ''10'')]
       = (\<lparr>status_code = 200, body = DocumentsBody [] 3\<rparr>, [match_all_args])
   \<and> (\<exists>p ps results unique ranked.
             1 \<le> p \<and> 1 \<le> ps \<and> ps \<le> 100
           \<and> int_param [(''page'', ''100''), (''page-size'', ''10'')] ''page'' 1 = Some p
           \<and> int_param [(''page'', ''100''), (''page-size'', ''10'')] ''page-size'' 10 = Some ps
           \<and> keep_latest_versions (map add_score results) = Inr unique
           \<and> mset ranked = mset unique
           \<and> \<lparr>status_code = 200, body = DocumentsBody [] 3\<rparr> = paginate_response ranked p ps
           \<and> body \<lparr>status_code = 200, body = DocumentsBody [] 3\<rparr> = DocumentsBody
                  (map clean_resource (take (nat ps) (drop (nat ((p - 1) * ps)) ranked)))
                  (length unique))"
proof -
  have h: "search_resources three_hits [(''page'', ''100''), (''page-size'', ''10'')]
       = (\<lparr>status_code = 200, body = DocumentsBody [] 3\<rparr>, [match_all_args])"
    by code_simp
  have a: "paginate_response [s_b, s_A, s_a] 2 1
     = \<lparr>status_code = 200, body = DocumentsBody [clean_resource s_A] 3\<rparr>"
    using pagination_window[of 2 1 "[s_b, s_A, s_a]"] by simp
  have b: "paginate_response [s_b, s_A, s_a] 100 10
     = \<lparr>status_code = 200, body = DocumentsBody [] 3\<rparr>"
    using pagination_window[of 100 10 "[s_b, s_A, s_a]"] by simp
  have c: "\<exists>p ps results unique ranked.
             1 \<le> p \<and> 1 \<le> ps \<and> ps \<le> 100
           \<and> int_param [(''page'', ''100''), (''page-size'', ''10'')] ''page'' 1 = Some p
           \<and> int_param [(''page'', ''100''), (''page-size'', ''10'')] ''page-size'' 10 = Some ps
           \<and> keep_latest_versions (map add_score results) = Inr unique
           \<and> mset ranked = mset unique
           \<and> \<lparr>status_code = 200, body = DocumentsBody [] 3\<rparr> = paginate_response ranked p ps
           \<and> body \<lparr>status_code = 200, body = DocumentsBody [] 3\<rparr> = DocumentsBody
                  (map clean_resource (take (nat ps) (drop (nat ((p - 1) * ps)) ranked)))
                  (length unique)"
    by (rule conjunct2[OF pagination_window[of 1 1 "[]"], rule_format,
          of three_hits _ _ "[match_all_args]"]) (simp add: h)
  show ?thesis using a b c h by (intro conjI)
qed

section \<open>Cleanup of the returned documents\<close>

lemma map_of_clean_resource:
  "map_of (clean_resource d) k =
     (if k = ''database'' then Some (PyStr ''gem5-vision'')
      else if k \<in> {''@search.score'', ''@search.highlights'', ''@search.reranker_score''}
      then None
      else map_of d k)"
  by (simp add: clean_resource_def dict_set_def dict_pop_def update_conv' delete_conv')

text \<open>
  C8: the cleanup of a document removes the three internal keys of the search service,
  sets \<open>database\<close> to the constant \<open>gem5-vision\<close> and leaves the value of every other
  key as it was, adding none; and every document in a response of the endpoint is the
  cleanup of a ranked document, in the order of the page.
\<close>

theorem cleanup_frame:
  "map_of (clean_resource d) k =
     (if k = ''database'' then Some (PyStr ''gem5-vision'')
      else if k \<in> {''@search.score'', ''@search.highlights'', ''@search.reranker_score''}
      then None
      else map_of d k)
   \<and> (\<forall>client params resp calls docs total.
         search_resources client params = (resp, calls) \<and> body resp = DocumentsBody docs total
         \<longrightarrow> (\<exists>ranked p ps.
                docs = map clean_resource (py_slice ranked ((p - 1) * ps) ((p - 1) * ps + ps))))"
proof (intro conjI allI impI)
  show "map_of (clean_resource d) k =
     (if k = ''database'' then Some (PyStr ''gem5-vision'')
      else if k \<in> {''@search.score'', ''@search.highlights'', ''@search.reranker_score''}
      then None
      else map_of d k)"
    by (rule map_of_clean_resource)
next
  fix client params resp calls docs total
  assume a: "search_resources client params = (resp, calls) \<and> body resp = DocumentsBody docs total"
  then obtain p ps q args results ranked where
    resp: "resp = paginate_response ranked p ps"
    using search_resources_ok[of client params resp calls] by blast
  have "docs = map clean_resource (py_slice ranked ((p - 1) * ps) ((p - 1) * ps + ps))"
    using a by (simp add: resp paginate_response_def Let_def)
  then show "\<exists>ranked p ps.
                docs = map clean_resource (py_slice ranked ((p - 1) * ps) ((p - 1) * ps + ps))"
    by blast
qed

theorem cleanup_frame_witness:
  "search_resources one_hit [] = (\<lparr>status_code = 200, body = DocumentsBody [clean_hit] 1\<rparr>,
                                  [match_all_args])
   \<and> clean_hit = clean_resource (add_score raw_hit)
   \<and> map_of clean_hit ''database'' = Some (PyStr ''gem5-vision'')
   \<and> map_of clean_hit ''@search.score'' = None
   \<and> map_of clean_hit ''@search.highlights'' = None
   \<and> map_of clean_hit ''@search.reranker_score'' = None
   \<and> map_of clean_hit ''category'' = map_of (add_score raw_hit) ''category''
   \<and> (\<exists>ranked p ps.
         [clean_hit] = map clean_resource (py_slice ranked ((p - 1) * ps) ((p - 1) * ps + ps)))"
proof -
  have h: "search_resources one_hit [] =
             (\<lparr>status_code = 200, body = DocumentsBody [clean_hit] 1\<rparr>, [match_all_args])"
    by code_simp
  have e: "clean_hit = clean_resource (add_score raw_hit)" by code_simp
  have m: "map_of clean_hit ''database'' = Some (PyStr ''gem5-vision'')"
    "map_of clean_hit ''@search.score'' = None"
    "map_of clean_hit ''@search.highlights'' = None"
    "map_of clean_hit ''@search.reranker_score'' = None"
    "map_of clean_hit ''category'' = map_of (add_score raw_hit) ''category''"
    unfolding e
    using cleanup_frame[of "add_score raw_hit" "''database''"]
      cleanup_frame[of "add_score raw_hit" "''@search.score''"]
      cleanup_frame[of "add_score raw_hit" "''@search.highlights''"]
      cleanup_frame[of "add_score raw_hit" "''@search.reranker_score''"]
      cleanup_frame[of "add_score raw_hit" "''category''"]
    by simp_all
  have c: "\<exists>ranked p ps.
         [clean_hit] = map clean_resource (py_slice ranked ((p - 1) * ps) ((p - 1) * ps + ps))"
    by (rule conjunct2[OF cleanup_frame[of "[]" "[]"], rule_format,
          of one_hit "[]" "\<lparr>status_code = 200, body = DocumentsBody [clean_hit] 1\<rparr>"
             "[match_all_args]" "[clean_hit]" 1]) (simp add: h)
  show ?thesis using h e m c by (intro conjI)
qed

section \<open>Invalid requests\<close>




section \<open>Unknown filter fields\<close>



section \<open>Query translation\<close>

lemma term_clause_structure:
  "term_clause t =
     ''('' @ join '' OR '' (concat (map (field_matches t) searched_fields) @ unfielded_matches t)
     @ '')''"
  by (simp add: term_clause_def searched_fields_def field_matches_def unfielded_matches_def)

lemma search_resources_calls:
  "snd (search_resources client params) = [args] \<Longrightarrow>
   (search_text args, query_type args)
     = build_search_text (sanitize_contains_str (py_strip (dict_get params ''contains-str'' '''')))"
  unfolding search_resources_def Let_def
  by (auto split: sum.splits prod.splits)

text \<open>
  C5, as stated, fails: the clause of a term does not span exactly the five fields. After
  the matches on \<open>id\<close>, \<open>description\<close>, \<open>category\<close>, \<open>architecture\<close> and \<open>tags\<close> it has two
  more disjuncts without a field name, which the search service matches against every
  searchable field of the index.
\<close>

theorem term_clause_not_fielded:
  "term_clause ''a'' \<noteq> fielded_clause ''a''
   \<and> term_clause ''a''
       = butlast (fielded_clause ''a'') @ '' OR '' @ [dquote] @ ''a'' @ [dquote] @ '' OR a*)''"
  by code_simp

text \<open>
  C5, amended: for an empty phrase the search text is the match-all \<open>*\<close> in the simple
  query syntax, without clauses. For a non-empty phrase the query uses the full syntax
  and is the conjunction (\<open>AND\<close>) of one clause per whitespace-separated term; the
  clause of a term is the disjunction (\<open>OR\<close>) of an exact-phrase match and a prefix match
  of the escaped term in each of the fields \<open>id\<close>, \<open>description\<close>, \<open>category\<close>,
  \<open>architecture\<close>, \<open>tags\<close>, those on \<open>id\<close> boosted by \<open>^10\<close> and the others not boosted,
  followed by an exact-phrase match and a prefix match without a field. This text and
  query type are what the endpoint passes to the search client.
\<close>

theorem query_translation:
  "build_search_text [] = (''*'', ''simple'')
   \<and> (contains_str \<noteq> [] \<longrightarrow>
        build_search_text contains_str
          = (join '' AND '' (map (\<lambda>t. term_clause (escape_lucene_query t))
                                 (split_ws contains_str)),
             ''full''))
   \<and> term_clause t =
        ''('' @ join '' OR ''
                 (concat (map (field_matches t) searched_fields) @ unfielded_matches t)
        @ '')''
   \<and> (\<forall>client params args.
          snd (search_resources client params) = [args] \<longrightarrow>
          (search_text args, query_type args)
            = build_search_text
                (sanitize_contains_str (py_strip (dict_get params ''contains-str'' ''''))))"
proof (intro conjI impI allI)
  show "build_search_text [] = (''*'', ''simple'')" by (simp add: build_search_text_def)
  show "build_search_text contains_str
          = (join '' AND '' (map (\<lambda>t. term_clause (escape_lucene_query t))
                                 (split_ws contains_str)),
             ''full'')" if "contains_str \<noteq> []"
    using that by (simp add: build_search_text_def)
  show "term_clause t =
        ''('' @ join '' OR ''
                 (concat (map (field_matches t) searched_fields) @ unfielded_matches t)
        @ '')''"
    by (rule term_clause_structure)
next
  fix client params args
  assume "snd (search_resources client params) = [args]"
  then show "(search_text args, query_type args)
            = build_search_text
                (sanitize_contains_str (py_strip (dict_get params ''contains-str'' '''')))"
    by (rule search_resources_calls)
qed

theorem query_translation_witness:
  "''ubuntu  x86-64 '' \<noteq> []
   \<and> split_ws ''ubuntu  x86-64 '' = [''ubuntu'', ''x86-64'']
   \<and> escape_lucene_query ''x86-64'' = ''x86'' @ [backslash] @ ''-64''
   \<and> build_search_text ''ubuntu  x86-64 ''
       = (term_clause ''ubuntu'' @ '' AND '' @ term_clause (''x86'' @ [backslash] @ ''-64''),
          ''full'')
   \<and> field_matches ''ubuntu'' (''id'', ''^10'')
       = [''id:'' @ [dquote] @ ''ubuntu'' @ [dquote] @ ''^10'', ''id:ubuntu*^10'']
   \<and> field_matches ''ubuntu'' (''tags'', '''')
       = [''tags:'' @ [dquote] @ ''ubuntu'' @ [dquote], ''tags:ubuntu*'']
   \<and> snd (search_resources one_hit [(''contains-str'', '' ubuntu '')])
       = [\<lparr>search_text = term_clause ''ubuntu'', filter_expr = None,
           include_total_count = True, top_n = 1000, query_type = ''full''\<rparr>]
   \<and> snd (search_resources one_hit []) = [match_all_args]"
proof -
  have n: "''ubuntu  x86-64 '' \<noteq> []" by simp
  have s: "split_ws ''ubuntu  x86-64 '' = [''ubuntu'', ''x86-64'']" by code_simp
  have e1: "escape_lucene_query ''ubuntu'' = ''ubuntu''" by code_simp
  have e2: "escape_lucene_query ''x86-64'' = ''x86'' @ [backslash] @ ''-64''" by code_simp
  have b: "build_search_text ''ubuntu  x86-64 ''
       = (term_clause ''ubuntu'' @ '' AND '' @ term_clause (''x86'' @ [backslash] @ ''-64''),
          ''full'')"
    using query_translation[of "''ubuntu  x86-64 ''"] by (simp add: s e1 e2)
  have f1: "field_matches ''ubuntu'' (''id'', ''^10'')
       = [''id:'' @ [dquote] @ ''ubuntu'' @ [dquote] @ ''^10'', ''id:ubuntu*^10'']"
    by code_simp
  have f2: "field_matches ''ubuntu'' (''tags'', '''')
       = [''tags:'' @ [dquote] @ ''ubuntu'' @ [dquote], ''tags:ubuntu*'']"
    by code_simp
  have h1: "snd (search_resources one_hit [(''contains-str'', '' ubuntu '')])
       = [\<lparr>search_text = term_clause ''ubuntu'', filter_expr = None,
           include_total_count = True, top_n = 1000, query_type = ''full''\<rparr>]"
    by code_simp
  have h2: "snd (search_resources one_hit []) = [match_all_args]" by code_simp
  show ?thesis using n s e2 b f1 f2 h1 h2 by (intro conjI)
qed

end
